theory Spec2Isabelle
  imports Main
begin

section \<open>Python values and the built-ins the exporter uses\<close>

text \<open>
  The exporter (\<^verbatim>\<open>moji_exporter.py\<close>) works on the values \<^verbatim>\<open>json.loads\<close> returns.
  They are modelled by the datatype \<open>json\<close>; a Python dict is an association list read
  with \<open>map_of\<close>. JSON numbers with a fraction (Python floats) are left out. A string is
  a list of characters; the model is exact for ASCII text (whitespace, digits and case
  mapping of characters beyond ASCII are not modelled), and the three CJK keywords of
  \<^verbatim>\<open>_pick_folder\<close> are written as their UTF-8 bytes.
\<close>

datatype json =
    JNull
  | JBool bool
  | JInt int
  | JStr string
  | JArr "json list"
  | JObj "(string \<times> json) list"

type_synonym pydict = "(string \<times> json) list"

text \<open>Truthiness (\<^verbatim>\<open>bool(x)\<close>), \<^verbatim>\<open>a or b\<close>, \<^verbatim>\<open>d.get(k)\<close> and \<^verbatim>\<open>d.get(k, default)\<close>.\<close>

fun truthy :: "json \<Rightarrow> bool" where
  "truthy JNull = False"
| "truthy (JBool b) = b"
| "truthy (JInt i) = (i \<noteq> 0)"
| "truthy (JStr s) = (s \<noteq> [])"
| "truthy (JArr xs) = (xs \<noteq> [])"
| "truthy (JObj kvs) = (kvs \<noteq> [])"

definition py_or :: "json \<Rightarrow> json \<Rightarrow> json" where
  "py_or a b = (if truthy a then a else b)"

definition get_default :: "pydict \<Rightarrow> string \<Rightarrow> json \<Rightarrow> json" where
  "get_default d k dflt = (case map_of d k of None \<Rightarrow> dflt | Some v \<Rightarrow> v)"

definition get :: "pydict \<Rightarrow> string \<Rightarrow> json" where
  "get d k = get_default d k JNull"

fun is_dict :: "json \<Rightarrow> bool" where
  "is_dict (JObj kvs) = True"
| "is_dict j = False"

text \<open>\<^verbatim>\<open>str(x)\<close> and \<^verbatim>\<open>repr(x)\<close>: decimal integers, quoted and escaped strings inside
  containers, \<^verbatim>\<open>", "\<close>-separated elements.\<close>

fun show_nat :: "nat \<Rightarrow> string" where
  "show_nat n =
     (if n < 10 then [''0123456789'' ! n]
      else show_nat (n div 10) @ [''0123456789'' ! (n mod 10)])"

definition show_int :: "int \<Rightarrow> string" where
  "show_int i = (if i < 0 then CHR ''-'' # show_nat (nat (- i)) else show_nat (nat i))"

definition hex2 :: "nat \<Rightarrow> string" where
  "hex2 n = [''0123456789abcdef'' ! (n div 16), ''0123456789abcdef'' ! (n mod 16)]"

definition repr_char :: "char \<Rightarrow> char \<Rightarrow> string" where
  "repr_char q c =
     (if c = q \<or> c = CHR 0x5C then [CHR 0x5C, c]
      else if c = CHR 0x09 then [CHR 0x5C, CHR ''t'']
      else if c = CHR 0x0A then [CHR 0x5C, CHR ''n'']
      else if c = CHR 0x0D then [CHR 0x5C, CHR ''r'']
      else if (of_char c :: nat) < 32 \<or> (of_char c :: nat) = 127
        then [CHR 0x5C, CHR ''x''] @ hex2 (of_char c)
      else [c])"

definition repr_str :: "string \<Rightarrow> string" where
  "repr_str s =
     (let q = (if CHR 0x27 \<in> set s \<and> CHR 0x22 \<notin> set s then CHR 0x22 else CHR 0x27)
      in [q] @ concat (map (repr_char q) s) @ [q])"

fun join_with :: "string \<Rightarrow> string list \<Rightarrow> string" where
  "join_with sep [] = []"
| "join_with sep [x] = x"
| "join_with sep (x # y # ys) = x @ sep @ join_with sep (y # ys)"

primrec py_repr :: "json \<Rightarrow> string" where
  "py_repr JNull = ''None''"
| "py_repr (JBool b) = (if b then ''True'' else ''False'')"
| "py_repr (JInt i) = show_int i"
| "py_repr (JStr s) = repr_str s"
| "py_repr (JArr xs) = ''['' @ join_with '', '' (map py_repr xs) @ '']''"
| "py_repr (JObj kvs) =
     ''{'' @ join_with '', '' (map (\<lambda>(k, r). repr_str k @ '': '' @ r) (map (map_prod id py_repr) kvs))
       @ ''}''"

definition py_str :: "json \<Rightarrow> string" where
  "py_str j = (case j of JStr s \<Rightarrow> s | _ \<Rightarrow> py_repr j)"

definition type_name :: "json \<Rightarrow> string" where
  "type_name j = (case j of JNull \<Rightarrow> ''NoneType'' | JBool b \<Rightarrow> ''bool'' | JInt i \<Rightarrow> ''int''
     | JStr s \<Rightarrow> ''str'' | JArr xs \<Rightarrow> ''list'' | JObj kvs \<Rightarrow> ''dict'')"

text \<open>String methods: \<^verbatim>\<open>strip\<close>, \<^verbatim>\<open>lower\<close>, \<^verbatim>\<open>isdigit\<close>, \<^verbatim>\<open>in\<close> (substring),
  \<^verbatim>\<open>split(",")\<close>, \<^verbatim>\<open>replace("..", "-")\<close>, \<^verbatim>\<open>partition("-")\<close>.\<close>

definition is_space :: "char \<Rightarrow> bool" where
  "is_space c = (let n = (of_char c :: nat) in (9 \<le> n \<and> n \<le> 13) \<or> (28 \<le> n \<and> n \<le> 32))"

definition strip :: "string \<Rightarrow> string" where
  "strip s = rev (dropWhile is_space (rev (dropWhile is_space s)))"

definition is_digit :: "char \<Rightarrow> bool" where
  "is_digit c = (let n = (of_char c :: nat) in 48 \<le> n \<and> n \<le> 57)"

definition isdigit :: "string \<Rightarrow> bool" where
  "isdigit s = (s \<noteq> [] \<and> list_all is_digit s)"

definition lower_char :: "char \<Rightarrow> char" where
  "lower_char c =
     (case map_of (zip ''ABCDEFGHIJKLMNOPQRSTUVWXYZ'' ''abcdefghijklmnopqrstuvwxyz'') c of
        None \<Rightarrow> c
      | Some l \<Rightarrow> l)"

definition lower :: "string \<Rightarrow> string" where
  "lower s = map lower_char s"

fun starts_with :: "string \<Rightarrow> string \<Rightarrow> bool" where
  "starts_with [] s = True"
| "starts_with (p # ps) [] = False"
| "starts_with (p # ps) (c # cs) = (p = c \<and> starts_with ps cs)"

fun contains :: "string \<Rightarrow> string \<Rightarrow> bool" where
  "contains sub [] = (sub = [])"
| "contains sub (c # cs) = (starts_with sub (c # cs) \<or> contains sub cs)"

fun split_on :: "char \<Rightarrow> string \<Rightarrow> string list" where
  "split_on sep [] = [[]]"
| "split_on sep (c # cs) =
     (case split_on sep cs of
        [] \<Rightarrow> [[c]]
      | w # ws \<Rightarrow> if c = sep then [] # w # ws else (c # w) # ws)"

fun replace_dotdot :: "string \<Rightarrow> string" where
  "replace_dotdot (a # b # cs) =
     (if a = CHR ''.'' \<and> b = CHR ''.'' then CHR ''-'' # replace_dotdot cs
      else a # replace_dotdot (b # cs))"
| "replace_dotdot cs = cs"

definition partition_dash :: "string \<Rightarrow> string \<times> string \<times> string" where
  "partition_dash s =
     (let a = takeWhile (\<lambda>c. c \<noteq> CHR ''-'') s; r = dropWhile (\<lambda>c. c \<noteq> CHR ''-'') s
      in case r of [] \<Rightarrow> (s, [], []) | d # b \<Rightarrow> (a, [d], b))"

text \<open>\<^verbatim>\<open>int(s)\<close> of a string: surrounding whitespace, an optional sign, decimal digits with
  single underscores between digits; \<open>None\<close> is Python's \<^verbatim>\<open>ValueError\<close>.\<close>

fun digits_value :: "nat \<Rightarrow> string \<Rightarrow> nat option" where
  "digits_value acc [] = Some acc"
| "digits_value acc [c] =
     (if is_digit c then Some (acc * 10 + ((of_char c :: nat) - 48)) else None)"
| "digits_value acc (c # d # cs) =
     (if is_digit c then
        (if d = CHR ''_'' then (if cs = [] then None
                                else digits_value (acc * 10 + ((of_char c :: nat) - 48)) cs)
         else digits_value (acc * 10 + ((of_char c :: nat) - 48)) (d # cs))
      else None)"

definition int_of_string :: "string \<Rightarrow> int option" where
  "int_of_string s =
     (case strip s of
        [] \<Rightarrow> None
      | c # cs \<Rightarrow>
          if c = CHR ''-'' then (if cs = [] then None else map_option (\<lambda>n. - int n) (digits_value 0 cs))
          else if c = CHR ''+'' then (if cs = [] then None else map_option int (digits_value 0 cs))
          else map_option int (digits_value 0 (c # cs)))"

text \<open>\<^verbatim>\<open>int(x)\<close> of a decoded value, and membership of a value in a set of integers
  (\<^verbatim>\<open>tt not in allowed_types\<close> hashes \<^verbatim>\<open>tt\<close>, so a list or a dict raises
  \<^verbatim>\<open>TypeError\<close>; \<^verbatim>\<open>True\<close> and \<^verbatim>\<open>False\<close> are equal to 1 and 0).\<close>

datatype error =
    RuntimeError string
  | ValueError
  | TypeError
  | SystemExit string

fun py_int :: "json \<Rightarrow> error + int" where
  "py_int (JInt i) = Inr i"
| "py_int (JBool b) = Inr (if b then 1 else 0)"
| "py_int (JStr s) = (case int_of_string s of None \<Rightarrow> Inl ValueError | Some i \<Rightarrow> Inr i)"
| "py_int j = Inl TypeError"

fun py_eq_int :: "json \<Rightarrow> int \<Rightarrow> bool" where
  "py_eq_int (JInt i) n = (i = n)"
| "py_eq_int (JBool b) n = ((if b then 1 else 0) = n)"
| "py_eq_int j n = False"

fun in_int_set :: "json \<Rightarrow> int list \<Rightarrow> error + bool" where
  "in_int_set (JArr xs) S = Inl TypeError"
| "in_int_set (JObj kvs) S = Inl TypeError"
| "in_int_set j S = Inr (list_ex (py_eq_int j) S)"

section \<open>Command line, gateway and run state\<close>

text \<open>The parsed command line (\<^verbatim>\<open>args\<close> of \<^verbatim>\<open>main\<close>); the client version, installation
  id and device id only travel to the gateway and are left out. The field \<^verbatim>\<open>output\<close> is
  written \<open>output_file\<close>.\<close>

datatype export_mode = Sentences | Words | Both

record args =
  session_token :: "string option"
  pfid :: "string option"
  folder_id :: "string option"
  targets_for_item :: "string option"
  page :: int
  count :: int
  sort_type :: int
  sort_types :: "string option"
  limit :: int
  mode :: export_mode
  target_types :: "string option"
  output_file :: "string option"
  json_output :: bool
  fetch_all :: bool
  all_folders :: bool
  max_pages :: int
  stop_after_no_new :: int
  expected :: int

definition given :: "string option \<Rightarrow> bool" where
  "given s = (case s of None \<Rightarrow> False | Some v \<Rightarrow> v \<noteq> [])"

text \<open>The Remote Call Gateway. A request is a cloud function call (\<^verbatim>\<open>call_cf\<close>: function
  name and parameters) or one of the two resource lookups; a reply is the decoded body, or
  the message of the exception the HTTP helper raised. The remote service is a function of
  the number of calls made so far and of the request, so its answers may change over time.\<close>

datatype request =
    CallCF string pydict
  | WordDetail string
  | ItemTargets string

datatype reply = Failed string | Reply json

type_synonym gateway = "nat \<Rightarrow> request \<Rightarrow> reply"

datatype export_record =
    SentenceRecord (targetType: json) (itemId: string) (wordId: string)
      (word_spell: string) (word_pron: string) (jp: string) (trans: string)
      (rec_folder_id: string) (rec_folder_title: string) (sortType: int)
  | WordRecord (targetType: json) (itemId: string) (wordId: string)
      (spell: string) (pron: string) (accent: string) (excerpt: string)
      (rec_folder_id: string) (rec_folder_title: string) (sortType: int)

text \<open>The effects of a run, newest first: a gateway call, a record produced (printed to
  the output as a block, or stored in \<^verbatim>\<open>results_by_id\<close> in JSON mode; the layout of the
  printed block is not modelled), and a rewrite of the JSON progress file for a folder,
  sort type and page.\<close>

datatype event =
    Call request
  | Emit string export_record
  | Rewrite string string int int

record state =
  word_cache :: "string \<rightharpoonup> json"
  seen_item_ids_global :: "string set"
  printed_total :: int
  stop_everything :: bool
  results_by_id :: "string \<rightharpoonup> export_record"
  trace :: "event list"

definition init_state :: state where
  "init_state = \<lparr> word_cache = Map.empty, seen_item_ids_global = {}, printed_total = 0,
     stop_everything = False, results_by_id = Map.empty, trace = [] \<rparr>"

fun calls_of :: "event list \<Rightarrow> request list" where
  "calls_of [] = []"
| "calls_of (Call r # es) = r # calls_of es"
| "calls_of (e # es) = calls_of es"

fun emitted_ids :: "event list \<Rightarrow> string list" where
  "emitted_ids [] = []"
| "emitted_ids (Emit i r # es) = i # emitted_ids es"
| "emitted_ids (e # es) = emitted_ids es"

fun word_detail_ids :: "request list \<Rightarrow> string list" where
  "word_detail_ids [] = []"
| "word_detail_ids (WordDetail w # rs) = w # word_detail_ids rs"
| "word_detail_ids (r # rs) = word_detail_ids rs"

definition gateway_call :: "gateway \<Rightarrow> request \<Rightarrow> state \<Rightarrow> reply \<times> state" where
  "gateway_call env r st =
     (env (length (calls_of (trace st))) r, st\<lparr>trace := Call r # trace st\<rparr>)"

text \<open>\<^verbatim>\<open>_unwrap_parse_result\<close>, and a cloud function call followed by it.\<close>

fun unwrap_parse_result :: "json \<Rightarrow> error + pydict" where
  "unwrap_parse_result (JObj resp) =
     (case get resp ''result'' of
        JNull \<Rightarrow> Inr [(''code'', JInt (- 1)), (''message'', JStr ''Parse returned null result''),
                      (''raw'', JObj resp)]
      | JObj d \<Rightarrow> Inr d
      | JArr xs \<Rightarrow> Inr [(''code'', JInt 200), (''result'', JArr xs)]
      | _ \<Rightarrow> Inr resp)"
| "unwrap_parse_result j =
     Inl (RuntimeError (''Unexpected response type: <class '' @ repr_str (type_name j) @ ''>''))"

definition call_cf :: "gateway \<Rightarrow> string \<Rightarrow> pydict \<Rightarrow> state \<Rightarrow> (error + pydict) \<times> state" where
  "call_cf env func_name params st =
     (case gateway_call env (CallCF func_name params) st of
        (Failed msg, st') \<Rightarrow> (Inl (RuntimeError msg), st')
      | (Reply j, st') \<Rightarrow> (unwrap_parse_result j, st'))"

text \<open>\<^verbatim>\<open>_folder_id_of\<close>, \<^verbatim>\<open>_folder_title_of\<close>, \<^verbatim>\<open>_iter_items_from_folder_content\<close> and
  \<^verbatim>\<open>_pick_folder\<close> (the first folder whose title contains a keyword, keywords in order;
  else the first folder).\<close>

definition folder_id_of :: "pydict \<Rightarrow> string" where
  "folder_id_of folder =
     strip (py_str (py_or (get folder ''targetId'')
              (py_or (get folder ''objectId'') (py_or (get folder ''id'') (JStr '''')))))"

definition folder_title_of :: "pydict \<Rightarrow> string" where
  "folder_title_of folder =
     strip (py_str (py_or (get folder ''title'') (py_or (get folder ''name'') (JStr ''''))))"

fun dicts_of :: "json list \<Rightarrow> pydict list" where
  "dicts_of [] = []"
| "dicts_of (JObj d # js) = d # dicts_of js"
| "dicts_of (j # js) = dicts_of js"

definition iter_items_from_folder_content :: "pydict \<Rightarrow> pydict list" where
  "iter_items_from_folder_content content =
     (case get content ''result'' of JArr items \<Rightarrow> dicts_of items | _ \<Rightarrow> [])"

definition folder_keywords :: "string list" where
  "folder_keywords =
     [[CHR 0xE4, CHR 0xBE, CHR 0x8B, CHR 0xE6, CHR 0x96, CHR 0x87],
      [CHR 0xE4, CHR 0xBE, CHR 0x8B, CHR 0xE5, CHR 0x8F, CHR 0xA5],
      [CHR 0xE4, CHR 0xBE, CHR 0x8B],
      ''sentence'',
      ''sentences'']"

fun pick_by_keywords :: "string list \<Rightarrow> pydict list \<Rightarrow> pydict option" where
  "pick_by_keywords [] folders = None"
| "pick_by_keywords (kw # kws) folders =
     (case find (\<lambda>f. contains (lower kw) (lower (py_str (get_default f ''title'' (JStr ''''))))) folders of
        Some f \<Rightarrow> Some f
      | None \<Rightarrow> pick_by_keywords kws folders)"

definition pick_folder :: "pydict list \<Rightarrow> pydict option" where
  "pick_folder folders =
     (case folders of
        [] \<Rightarrow> None
      | f0 # fs \<Rightarrow> (case pick_by_keywords folder_keywords folders of Some f \<Rightarrow> Some f | None \<Rightarrow> Some f0))"

section \<open>The traversal: \<^verbatim>\<open>_export_one_folder\<close> and the folder and sort loops\<close>

text \<open>The local variables of \<^verbatim>\<open>_export_one_folder\<close> that the control flow reads; the
  diagnostics that are only logged (\<^verbatim>\<open>type_counts\<close>, \<^verbatim>\<open>new_selected_in_page\<close>,
  \<^verbatim>\<open>first_item_id\<close>, \<^verbatim>\<open>last_item_id\<close>) are left out. The parameters \<^verbatim>\<open>folder_id\<close>,
  \<^verbatim>\<open>folder_title\<close> and \<^verbatim>\<open>sort_type\<close> of \<^verbatim>\<open>_export_one_folder\<close> are written \<open>fid\<close>,
  \<open>ftitle\<close> and \<open>stype\<close> here, since \<open>folder_id\<close> and \<open>sort_type\<close> are fields of \<open>args\<close>.\<close>

record locals =
  page_index :: int
  total_pages :: "int option"
  no_new_streak :: nat
  seen_item_ids_in_folder :: "string set"
  new_any_in_page :: nat

text \<open>How a loop body ends: it falls through to the next iteration, breaks, returns from
  the function, raises, or (in the model only) the page loop has used up its fuel.\<close>

datatype signal = Next | Break | Return | Raise error | OutOfFuel

text \<open>The Item Identity (lines 739-742 of the source); an item whose target is not an
  object has none (lines 735-737). \<open>page_identities\<close> lists the identities a page holds.\<close>

definition item_id_of :: "pydict \<Rightarrow> json" where
  "item_id_of target =
     (let item_id = py_or (get target ''objectId'') (get target ''id'')
      in if \<not> truthy item_id
         then JStr (py_str (get_default target ''wordId'' (JStr '''')) @ ''::''
                    @ py_str (get_default target ''title'' (JStr '''')))
         else item_id)"

definition item_id_s_of :: "json \<Rightarrow> json \<Rightarrow> string" where
  "item_id_s_of tt item_id = py_str tt @ '':'' @ py_str item_id"

definition item_identity :: "pydict \<Rightarrow> string option" where
  "item_identity it =
     (case get it ''target'' of
        JObj target \<Rightarrow> Some (item_id_s_of (get it ''targetType'') (item_id_of target))
      | _ \<Rightarrow> None)"

definition page_identities :: "pydict list \<Rightarrow> string list" where
  "page_identities items = List.map_filter item_identity items"

text \<open>The Word Resolution Cache. The source has the same lines twice (772-782 for
  sentence-like items, 837-847 for words): fill the cache on a miss, with the reply or
  with the error sentinel, then read the \<^verbatim>\<open>word\<close> object of the cached entry.\<close>

definition ensure_word_cached :: "gateway \<Rightarrow> string \<Rightarrow> state \<Rightarrow> state" where
  "ensure_word_cached env word_id_s st =
     (if word_cache st word_id_s \<noteq> None then st
      else (case gateway_call env (WordDetail word_id_s) st of
              (Reply j, st') \<Rightarrow> st'\<lparr>word_cache := (word_cache st')(word_id_s \<mapsto> j)\<rparr>
            | (Failed msg, st') \<Rightarrow>
                st'\<lparr>word_cache := (word_cache st')(word_id_s \<mapsto> JObj [(''_error'', JStr msg)])\<rparr>))"

definition cached_word :: "state \<Rightarrow> string \<Rightarrow> json" where
  "cached_word st word_id_s =
     (let wresp = py_or (case word_cache st word_id_s of None \<Rightarrow> JNull | Some j \<Rightarrow> j) (JObj [])
      in case wresp of JObj d \<Rightarrow> get d ''word'' | _ \<Rightarrow> JNull)"

definition text_of :: "pydict \<Rightarrow> string \<Rightarrow> string" where
  "text_of d k = strip (py_str (py_or (get d k) (JStr '''')))"

text \<open>The Item Classifier: lines 765-807 for sentence-like items, 824-866 for words. The
  result is the record to produce, if any, and the state after the word lookup.\<close>

definition jp_of :: "pydict \<Rightarrow> string" where
  "jp_of target =
     strip (py_str (py_or (get target ''title'') (py_or (get target ''notationTitle'') (JStr ''''))))"

definition classify_sentence ::
  "gateway \<Rightarrow> string \<Rightarrow> string \<Rightarrow> int \<Rightarrow> json \<Rightarrow> json \<Rightarrow> pydict \<Rightarrow> state \<Rightarrow> export_record option \<times> state" where
  "classify_sentence env fid ftitle stype tt item_id target st =
     (let word_id = get target ''wordId'';
          word_id_s = (if word_id \<noteq> JNull then py_str word_id else '''');
          st' = (if word_id_s \<noteq> '''' then ensure_word_cached env word_id_s st else st);
          w = (if word_id_s \<noteq> '''' then cached_word st' word_id_s else JNull);
          w_spell = (case w of JObj wd \<Rightarrow> text_of wd ''spell'' | _ \<Rightarrow> '''');
          w_pron = (case w of JObj wd \<Rightarrow> text_of wd ''pron'' | _ \<Rightarrow> '''');
          jp_s = jp_of target;
          trans_s = strip (py_str (py_or (get target ''trans'')
                    (py_or (get target ''excerpt'') (JStr ''''))))
      in (if jp_s \<noteq> ''''
          then Some (SentenceRecord tt (py_str item_id) word_id_s w_spell w_pron jp_s trans_s
                       fid ftitle stype)
          else None, st'))"

definition inline_spell :: "pydict \<Rightarrow> string" where
  "inline_spell target =
     strip (py_str (py_or (get target ''spell'') (py_or (get target ''title'') (JStr ''''))))"

definition word_id_s_of :: "pydict \<Rightarrow> string" where
  "word_id_s_of target =
     (let word_id = py_or (get target ''objectId'') (get target ''id'')
      in if word_id \<noteq> JNull then py_str word_id else '''')"

definition fill :: "string \<Rightarrow> string \<Rightarrow> string" where
  "fill inline resolved = (if inline \<noteq> '''' then inline else resolved)"

text \<open>The display fields of a word item (lines 830-852): the inline fields, completed
  from the cached word detail when the item has a word id and lacks its spell or pron.\<close>

definition word_fields ::
  "gateway \<Rightarrow> pydict \<Rightarrow> state \<Rightarrow> (string \<times> string \<times> string \<times> string) \<times> state" where
  "word_fields env target st =
     (let word_id_s = word_id_s_of target;
          spell0 = inline_spell target;
          pron0 = text_of target ''pron'';
          accent0 = text_of target ''accent'';
          excerpt0 = text_of target ''excerpt''
      in if word_id_s \<noteq> '''' \<and> (spell0 = '''' \<or> pron0 = '''') then
           (let st' = ensure_word_cached env word_id_s st
            in case cached_word st' word_id_s of
                 JObj wd \<Rightarrow>
                   ((fill spell0 (text_of wd ''spell''), fill pron0 (text_of wd ''pron''),
                     fill accent0 (text_of wd ''accent''), fill excerpt0 (text_of wd ''excerpt'')),
                    st')
               | _ \<Rightarrow> ((spell0, pron0, accent0, excerpt0), st'))
         else ((spell0, pron0, accent0, excerpt0), st))"

text \<open>The word record (lines 854-866), when the spell or the excerpt is not empty.\<close>

definition classify_word ::
  "gateway \<Rightarrow> string \<Rightarrow> string \<Rightarrow> int \<Rightarrow> json \<Rightarrow> json \<Rightarrow> pydict \<Rightarrow> state \<Rightarrow> export_record option \<times> state" where
  "classify_word env fid ftitle stype tt item_id target st =
     (case word_fields env target st of
        ((spell1, pron1, accent1, excerpt1), st') \<Rightarrow>
          (if spell1 \<noteq> '''' \<or> excerpt1 \<noteq> ''''
           then Some (WordRecord tt (py_str item_id) (word_id_s_of target) spell1 pron1 accent1
                        excerpt1 fid ftitle stype)
           else None, st'))"

definition classify ::
  "gateway \<Rightarrow> string \<Rightarrow> string \<Rightarrow> int \<Rightarrow> json \<Rightarrow> json \<Rightarrow> pydict \<Rightarrow> state \<Rightarrow> export_record option \<times> state" where
  "classify env fid ftitle stype tt item_id target st =
     (if py_eq_int tt 103 \<or> py_eq_int tt 120
        then classify_sentence env fid ftitle stype tt item_id target st
      else if py_eq_int tt 102
        then classify_word env fid ftitle stype tt item_id target st
      else (None, st))"

text \<open>A record is produced (lines 794-822 and 855-883, the same in both branches): stored
  or printed, counted, and the expected-count threshold checked.\<close>

definition accept :: "args \<Rightarrow> string \<Rightarrow> export_record \<Rightarrow> state \<Rightarrow> signal \<times> state" where
  "accept a item_id_s r st =
     (let st1 = st\<lparr>results_by_id :=
                     (if json_output a then (results_by_id st)(item_id_s \<mapsto> r) else results_by_id st),
                   trace := Emit item_id_s r # trace st,
                   printed_total := printed_total st + 1\<rparr>
      in if fetch_all a \<and> expected a > 0 \<and> printed_total st1 \<ge> expected a
         then (Break, st1\<lparr>stop_everything := True\<rparr>)
         else (Next, st1))"

definition after_item :: "args \<Rightarrow> state \<Rightarrow> signal" where
  "after_item a st = (if \<not> fetch_all a \<and> printed_total st \<ge> limit a then Break else Next)"

text \<open>The body of \<^verbatim>\<open>for it in items\<close> (lines 731-886).\<close>

definition process_item ::
  "gateway \<Rightarrow> args \<Rightarrow> int list \<Rightarrow> string \<Rightarrow> string \<Rightarrow> int \<Rightarrow> pydict \<Rightarrow> locals \<Rightarrow> state
     \<Rightarrow> signal \<times> locals \<times> state" where
  "process_item env a allowed_types fid ftitle stype it l st =
     (let tt = get it ''targetType'' in
      case get it ''target'' of
        JObj target \<Rightarrow>
          (let item_id = item_id_of target;
               item_id_s = item_id_s_of tt item_id
           in if fetch_all a \<and> item_id_s \<in> seen_item_ids_in_folder l then (Next, l, st)
              else
                (let l1 = (if fetch_all a
                           then l\<lparr>seen_item_ids_in_folder := insert item_id_s (seen_item_ids_in_folder l),
                                  new_any_in_page := new_any_in_page l + 1\<rparr>
                           else l)
                 in case in_int_set tt allowed_types of
                      Inl e \<Rightarrow> (Raise e, l1, st)
                    | Inr False \<Rightarrow> (Next, l1, st)
                    | Inr True \<Rightarrow>
                        if item_id_s \<in> seen_item_ids_global st then (Next, l1, st)
                        else
                          (let st1 = st\<lparr>seen_item_ids_global :=
                                           insert item_id_s (seen_item_ids_global st)\<rparr>
                           in case classify env fid ftitle stype tt item_id target st1 of
                                (Some r, st2) \<Rightarrow>
                                  (case accept a item_id_s r st2 of
                                     (Break, st3) \<Rightarrow> (Break, l1, st3)
                                   | (sg, st3) \<Rightarrow> (after_item a st3, l1, st3))
                              | (None, st2) \<Rightarrow> (after_item a st2, l1, st2))))
      | _ \<Rightarrow> (Next, l, st))"

fun item_loop ::
  "gateway \<Rightarrow> args \<Rightarrow> int list \<Rightarrow> string \<Rightarrow> string \<Rightarrow> int \<Rightarrow> pydict list \<Rightarrow> locals \<Rightarrow> state
     \<Rightarrow> signal \<times> locals \<times> state" where
  "item_loop env a allowed_types fid ftitle stype [] l st = (Next, l, st)"
| "item_loop env a allowed_types fid ftitle stype (it # items) l st =
     (case process_item env a allowed_types fid ftitle stype it l st of
        (Next, l', st') \<Rightarrow> item_loop env a allowed_types fid ftitle stype items l' st'
      | r \<Rightarrow> r)"

text \<open>The page fetch (lines 687-707), the total page count (709-716) and the progress
  rewrite \<^verbatim>\<open>_rewrite_json_progress\<close>.\<close>

definition content_params :: "args \<Rightarrow> int list \<Rightarrow> string \<Rightarrow> int \<Rightarrow> int \<Rightarrow> pydict" where
  "content_params a server_target_types fid stype pidx =
     [(''fid'', JStr fid), (''sortType'', JInt stype), (''pageIndex'', JInt pidx),
      (''count'', JInt (count a))]
     @ (if server_target_types \<noteq> [] then [(''targetTypes'', JArr (map JInt server_target_types))]
        else [])"

definition fetch_page ::
  "gateway \<Rightarrow> args \<Rightarrow> int list \<Rightarrow> string \<Rightarrow> int \<Rightarrow> int \<Rightarrow> state \<Rightarrow> (error + pydict) \<times> state" where
  "fetch_page env a server_target_types fid stype pidx st =
     (case call_cf env ''folder-fetchContentWithRelatives''
             (content_params a server_target_types fid stype pidx) st of
        (Inl e, st') \<Rightarrow> (Inl e, st')
      | (Inr content_payload, st') \<Rightarrow>
          (case py_int (get_default content_payload ''code'' (JInt 0)) of
             Inl e \<Rightarrow> (Inl e, st')
           | Inr c \<Rightarrow>
               if c \<noteq> 200 then (Inl (RuntimeError ''folder-fetchContentWithRelatives failed''), st')
               else (Inr content_payload, st')))"

definition read_total_pages :: "pydict \<Rightarrow> int option \<Rightarrow> int option" where
  "read_total_pages content_payload tot =
     (case tot of
        Some t \<Rightarrow> Some t
      | None \<Rightarrow>
          (case get content_payload ''totalPage'' of
             JNull \<Rightarrow> None
           | tp \<Rightarrow> (case py_int tp of Inl e \<Rightarrow> None | Inr tp_i \<Rightarrow> if tp_i > 0 then Some tp_i else None)))"

definition rewrite_json_progress :: "args \<Rightarrow> string \<Rightarrow> string \<Rightarrow> int \<Rightarrow> int \<Rightarrow> state \<Rightarrow> state" where
  "rewrite_json_progress a fid ftitle stype pidx st =
     (if \<not> json_output a then st
      else if \<not> given (output_file a) then st
      else st\<lparr>trace := Rewrite fid ftitle stype pidx # trace st\<rparr>)"

text \<open>After the item loop (lines 888-933): the global stop, the progress rewrite, the
  single-page return, the no-new streak and the stop conditions of the pair.\<close>

definition after_items ::
  "args \<Rightarrow> string \<Rightarrow> string \<Rightarrow> int \<Rightarrow> locals \<Rightarrow> state \<Rightarrow> signal \<times> locals \<times> state" where
  "after_items a fid ftitle stype l st =
     (if stop_everything st then (Break, l, st)
      else
        (let st1 = rewrite_json_progress a fid ftitle stype (page_index l) st
         in if \<not> fetch_all a then (Return, l, st1)
            else
              (let l1 = l\<lparr>no_new_streak := (if new_any_in_page l = 0 then no_new_streak l + 1 else 0)\<rparr>
               in if stop_everything st1 then (Break, l1, st1)
                  else if int (no_new_streak l1) \<ge> max 1 (stop_after_no_new a) then (Break, l1, st1)
                  else if (case total_pages l1 of None \<Rightarrow> False | Some t \<Rightarrow> page_index l1 \<ge> t)
                    then (Break, l1, st1)
                  else if max_pages a > 0 \<and> page_index l1 - page a + 1 \<ge> max_pages a
                    then (Break, l1, st1)
                  else (Next, l1\<lparr>page_index := page_index l1 + 1\<rparr>, st1))))"

text \<open>One iteration of \<^verbatim>\<open>while True\<close> (lines 684-933).\<close>

definition page_step ::
  "gateway \<Rightarrow> args \<Rightarrow> int list \<Rightarrow> int list \<Rightarrow> string \<Rightarrow> string \<Rightarrow> int \<Rightarrow> locals \<Rightarrow> state
     \<Rightarrow> signal \<times> locals \<times> state" where
  "page_step env a allowed_types server_target_types fid ftitle stype l st =
     (if stop_everything st then (Break, l, st)
      else
        (case fetch_page env a server_target_types fid stype (page_index l) st of
           (Inl e, st1) \<Rightarrow> (Raise e, l, st1)
         | (Inr content_payload, st1) \<Rightarrow>
             (let l1 = l\<lparr>total_pages := read_total_pages content_payload (total_pages l)\<rparr>;
                  items = iter_items_from_folder_content content_payload
              in if items = [] then (Break, l1, st1)
                 else
                   (case item_loop env a allowed_types fid ftitle stype items
                           (l1\<lparr>new_any_in_page := 0\<rparr>) st1 of
                      (Raise e, l2, st2) \<Rightarrow> (Raise e, l2, st2)
                    | (sg, l2, st2) \<Rightarrow> after_items a fid ftitle stype l2 st2))))"

text \<open>The loop itself. It need not end (no page limit, a server that always has a new
  item), so it runs on fuel: one unit for each page.\<close>

fun page_loop ::
  "nat \<Rightarrow> gateway \<Rightarrow> args \<Rightarrow> int list \<Rightarrow> int list \<Rightarrow> string \<Rightarrow> string \<Rightarrow> int \<Rightarrow> locals \<Rightarrow> state
     \<Rightarrow> signal \<times> locals \<times> state" where
  "page_loop 0 env a allowed_types server_target_types fid ftitle stype l st = (OutOfFuel, l, st)"
| "page_loop (Suc n) env a allowed_types server_target_types fid ftitle stype l st =
     (case page_step env a allowed_types server_target_types fid ftitle stype l st of
        (Next, l', st') \<Rightarrow> page_loop n env a allowed_types server_target_types fid ftitle stype l' st'
      | r \<Rightarrow> r)"

definition init_locals :: "args \<Rightarrow> locals" where
  "init_locals a = \<lparr> page_index = page a, total_pages = None, no_new_streak = 0,
     seen_item_ids_in_folder = {}, new_any_in_page = 0 \<rparr>"

definition export_one_folder ::
  "nat \<Rightarrow> gateway \<Rightarrow> args \<Rightarrow> int list \<Rightarrow> int list \<Rightarrow> string \<Rightarrow> string \<Rightarrow> int \<Rightarrow> state
     \<Rightarrow> signal \<times> state" where
  "export_one_folder fuel env a allowed_types server_target_types fid ftitle stype st =
     (case page_loop fuel env a allowed_types server_target_types fid ftitle stype (init_locals a) st of
        (Break, l, st') \<Rightarrow> (Next, rewrite_json_progress a fid ftitle stype (page_index l) st')
      | (Raise e, l, st') \<Rightarrow> (Raise e, st')
      | (OutOfFuel, l, st') \<Rightarrow> (OutOfFuel, st')
      | (sg, l, st') \<Rightarrow> (Next, st'))"

text \<open>The loops of \<^verbatim>\<open>main\<close> over the sort types and the folders (lines 943-956).\<close>

fun sort_loop ::
  "nat \<Rightarrow> gateway \<Rightarrow> args \<Rightarrow> int list \<Rightarrow> int list \<Rightarrow> string \<Rightarrow> string \<Rightarrow> int list \<Rightarrow> state
     \<Rightarrow> signal \<times> state" where
  "sort_loop fuel env a allowed_types server_target_types fid ftitle [] st = (Next, st)"
| "sort_loop fuel env a allowed_types server_target_types fid ftitle (s # ss) st =
     (case export_one_folder fuel env a allowed_types server_target_types fid ftitle s st of
        (Next, st') \<Rightarrow>
          if stop_everything st' then (Break, st')
          else sort_loop fuel env a allowed_types server_target_types fid ftitle ss st'
      | r \<Rightarrow> r)"

fun folder_loop ::
  "nat \<Rightarrow> gateway \<Rightarrow> args \<Rightarrow> int list \<Rightarrow> int list \<Rightarrow> int list \<Rightarrow> (string \<times> string) list \<Rightarrow> state
     \<Rightarrow> signal \<times> state" where
  "folder_loop fuel env a allowed_types server_target_types active_sort_types [] st = (Next, st)"
| "folder_loop fuel env a allowed_types server_target_types active_sort_types ((fid, ftitle) # fs) st =
     (if fid = '''' then folder_loop fuel env a allowed_types server_target_types active_sort_types fs st
      else
        (case sort_loop fuel env a allowed_types server_target_types fid ftitle active_sort_types st of
           (Raise e, st') \<Rightarrow> (Raise e, st')
         | (OutOfFuel, st') \<Rightarrow> (OutOfFuel, st')
         | (sg, st') \<Rightarrow>
             if stop_everything st' then (Break, st')
             else if \<not> fetch_all a then (Break, st')
             else folder_loop fuel env a allowed_types server_target_types active_sort_types fs st'))"

section \<open>Configuration parsing, folder discovery and \<^verbatim>\<open>main\<close>\<close>

text \<open>\<^verbatim>\<open>_parse_target_types\<close> (lines 562-574): the set is kept as a list without
  repetitions. A part that is not an integer raises \<^verbatim>\<open>SystemExit\<close>.\<close>

fun target_types_parts :: "string list \<Rightarrow> int list \<Rightarrow> error + int list" where
  "target_types_parts [] out = Inr out"
| "target_types_parts (p # ps) out =
     (let part = strip p
      in if part = '''' then target_types_parts ps out
         else (case int_of_string part of
                 None \<Rightarrow> Inl (SystemExit (''Invalid --target-types entry: '' @ repr_str part))
               | Some i \<Rightarrow> target_types_parts ps (List.insert i out)))"

definition parse_target_types :: "string option \<Rightarrow> error + int list option" where
  "parse_target_types s =
     (case s of
        None \<Rightarrow> Inr None
      | Some v \<Rightarrow>
          if v = '''' then Inr None
          else (case target_types_parts (split_on (CHR '','') v) [] of
                  Inl e \<Rightarrow> Inl e
                | Inr out \<Rightarrow> Inr (if out = [] then None else Some out)))"

definition allowed_types_of :: "args \<Rightarrow> int list option \<Rightarrow> int list" where
  "allowed_types_of a explicit_types =
     (case explicit_types of
        Some ts \<Rightarrow> ts
      | None \<Rightarrow> (case mode a of Sentences \<Rightarrow> [120, 103] | Words \<Rightarrow> [102] | Both \<Rightarrow> [102, 103, 120]))"

text \<open>\<^verbatim>\<open>_parse_sort_types\<close> (lines 631-665): integers and inclusive ranges
  \<^verbatim>\<open>a-b\<close> or \<^verbatim>\<open>a..b\<close>, in order, each value once.\<close>

definition py_range_incl :: "int \<Rightarrow> int \<Rightarrow> int list" where
  "py_range_incl a_i b_i = (if a_i \<le> b_i then [a_i..b_i] else rev [b_i..a_i])"

definition sort_part :: "string \<Rightarrow> error + int list" where
  "sort_part part =
     (let plain = (case int_of_string part of
                     None \<Rightarrow> Inl (SystemExit (''Invalid --sort-types entry: '' @ repr_str part))
                   | Some i \<Rightarrow> Inr [i])
      in if contains ''..'' part \<or> contains ''-'' part then
           (case partition_dash (replace_dotdot part) of
              (a_s, sep, b_s) \<Rightarrow>
                if sep \<noteq> '''' \<and> isdigit (strip a_s) \<and> isdigit (strip b_s) then
                  (case (int_of_string (strip a_s), int_of_string (strip b_s)) of
                     (Some a_i, Some b_i) \<Rightarrow> Inr (py_range_incl a_i b_i)
                   | _ \<Rightarrow> Inl ValueError)
                else plain)
         else plain)"

fun sort_types_parts :: "string list \<Rightarrow> error + int list" where
  "sort_types_parts [] = Inr []"
| "sort_types_parts (p # ps) =
     (let part = strip p
      in if part = '''' then sort_types_parts ps
         else (case sort_part part of
                 Inl e \<Rightarrow> Inl e
               | Inr xs \<Rightarrow> (case sort_types_parts ps of Inl e \<Rightarrow> Inl e | Inr ys \<Rightarrow> Inr (xs @ ys))))"

fun uniq :: "int list \<Rightarrow> int list \<Rightarrow> int list" where
  "uniq seen [] = []"
| "uniq seen (x # xs) = (if x \<in> set seen then uniq seen xs else x # uniq (x # seen) xs)"

definition parse_sort_types :: "string option \<Rightarrow> error + int list" where
  "parse_sort_types s =
     (case s of
        None \<Rightarrow> Inr []
      | Some v \<Rightarrow>
          if v = '''' then Inr []
          else (case sort_types_parts (split_on (CHR '','') v) of
                  Inl e \<Rightarrow> Inl e
                | Inr out \<Rightarrow> Inr (uniq [] out)))"

definition active_sort_types_of :: "args \<Rightarrow> int list \<Rightarrow> int list" where
  "active_sort_types_of a sort_types_list =
     (if fetch_all a \<and> sort_types_list \<noteq> [] then sort_types_list else [sort_type a])"

text \<open>How \<^verbatim>\<open>main\<close> ends: its return code, an exception that leaves it, or (in the model
  only) a page loop out of fuel.\<close>

datatype outcome = Exit int | Raised error | FuelOut

text \<open>Folder discovery (lines 459-497): the parameters of the first call carry the
  \<^verbatim>\<open>pfid\<close> when one was given; the fallback call has none. Then the choice of the
  folders to export (lines 505-555).\<close>

definition folders_params_of :: "args \<Rightarrow> pydict" where
  "folders_params_of a =
     (case pfid a of None \<Rightarrow> [] | Some p \<Rightarrow> if p = '''' then [] else [(''pfid'', JStr p)])"

definition discover_folders :: "gateway \<Rightarrow> args \<Rightarrow> state \<Rightarrow> (outcome + json list) \<times> state" where
  "discover_folders env a st =
     (case call_cf env ''fetchMyFolders'' (folders_params_of a) st of
           (Inl e, st1) \<Rightarrow> (Inl (Raised e), st1)
         | (Inr folders_payload, st1) \<Rightarrow>
             (case py_int (get_default folders_payload ''code'' (JInt 0)) of
                Inl e \<Rightarrow> (Inl (Raised e), st1)
              | Inr c \<Rightarrow>
                  if c \<noteq> 200 then (Inl (Exit 1), st1)
                  else
                    (case get folders_payload ''result'' of
                       JArr folders \<Rightarrow>
                         if given (pfid a) \<and> folders = [] then
                           (case call_cf env ''fetchMyFolders'' [] st1 of
                              (Inl e, st2) \<Rightarrow> (Inl (Raised e), st2)
                            | (Inr folders_payload2, st2) \<Rightarrow>
                                (case py_int (get_default folders_payload2 ''code'' (JInt 0)) of
                                   Inl e \<Rightarrow> (Inl (Raised e), st2)
                                 | Inr c2 \<Rightarrow>
                                     (Inr (if c2 = 200
                                           then (case get folders_payload2 ''result'' of
                                                   JArr folders2 \<Rightarrow> folders2
                                                 | _ \<Rightarrow> folders)
                                           else folders), st2)))
                         else (Inr folders, st1)
                     | _ \<Rightarrow> (Inl (Exit 1), st1))))"

definition select_folders :: "args \<Rightarrow> json list \<Rightarrow> outcome + (string \<times> string) list" where
  "select_folders a folders =
     (if given (folder_id a) then
        (case find (\<lambda>f. Some (folder_id_of f) = folder_id a) (dicts_of folders) of
           None \<Rightarrow> Inl (Exit 1)
         | Some folder \<Rightarrow>
             Inr [(folder_id_of folder,
                   if folder_title_of folder \<noteq> '''' then folder_title_of folder else ''(selected)'')])
      else if all_folders a then
        (let found = map (\<lambda>f. (folder_id_of f, folder_title_of f))
                       (filter (\<lambda>f. folder_id_of f \<noteq> '''') (dicts_of folders));
             export_folders =
               (case pfid a of
                  None \<Rightarrow> found
                | Some p \<Rightarrow>
                    if p \<noteq> '''' \<and> strip p \<noteq> '''' \<and> list_all (\<lambda>x. strip p \<noteq> fst x) found
                    then (strip p, ''(root/pfid)'') # found
                    else found)
         in if export_folders = [] then Inl (Exit 1) else Inr export_folders)
      else
        (case pick_folder (dicts_of folders) of
           Some (kv # kvs) \<Rightarrow> Inr [(folder_id_of (kv # kvs), folder_title_of (kv # kvs))]
         | _ \<Rightarrow>
             (case pfid a of
                None \<Rightarrow> Inl (Exit 1)
              | Some p \<Rightarrow> if p = '''' then Inl (Exit 1) else Inr [(p, ''(root)'')])))"

text \<open>\<^verbatim>\<open>main\<close>. Opening and closing the output file and the log lines are left out.\<close>

definition main :: "nat \<Rightarrow> gateway \<Rightarrow> args \<Rightarrow> outcome \<times> state" where
  "main fuel env a =
     (if \<not> given (session_token a) then (Exit 2, init_state)
      else if given (targets_for_item a) then
        (case gateway_call env (ItemTargets (case targets_for_item a of Some i \<Rightarrow> i | None \<Rightarrow> ''''))
                init_state of
           (Failed msg, st) \<Rightarrow> (Exit 1, st)
         | (Reply j, st) \<Rightarrow> (Exit 0, st))
      else if json_output a \<and> \<not> given (output_file a) then (Exit 2, init_state)
      else
        (case discover_folders env a init_state of
           (Inl out, st) \<Rightarrow> (out, st)
         | (Inr folders, st) \<Rightarrow>
             (case select_folders a folders of
                Inl out \<Rightarrow> (out, st)
              | Inr export_folders \<Rightarrow>
                  (case parse_target_types (target_types a) of
                     Inl e \<Rightarrow> (Raised e, st)
                   | Inr explicit_types \<Rightarrow>
                       (let allowed_types = allowed_types_of a explicit_types;
                            server_target_types = sort allowed_types
                        in case parse_sort_types (sort_types a) of
                             Inl e \<Rightarrow> (Raised e, st)
                           | Inr sort_types_list \<Rightarrow>
                               (let active_sort_types = active_sort_types_of a sort_types_list
                                in case folder_loop fuel env a allowed_types server_target_types
                                          active_sort_types export_folders st of
                                     (Raise e, st') \<Rightarrow> (Raised e, st')
                                   | (OutOfFuel, st') \<Rightarrow> (FuelOut, st')
                                   | (sg, st') \<Rightarrow>
                                       (Exit 0,
                                        if json_output a then
                                          (case (export_folders, active_sort_types) of
                                             ((fid0, title0) # fs, s0 # ss) \<Rightarrow>
                                               rewrite_json_progress a fid0 title0 s0 (page a) st'
                                           | _ \<Rightarrow> st')
                                        else st')))))))"

section \<open>The traversal as a sequence of atomic steps\<close>

text \<open>Every state change of the traversal is one of three steps: a page fetch (only while
  the global stop flag is clear), a progress rewrite, or the handling of one item that
  passed the type filter and the global dedupe check: its identity is marked, the word
  cache may be filled with one new entry, and a record may be produced.\<close>

inductive lookup :: "state \<Rightarrow> state \<Rightarrow> bool" where
  hit: "lookup st st"
| miss: "word_cache st w = None \<Longrightarrow>
         lookup st (st\<lparr>trace := Call (WordDetail w) # trace st,
                      word_cache := (word_cache st)(w \<mapsto> v)\<rparr>)"

inductive produce :: "args \<Rightarrow> string \<Rightarrow> state \<Rightarrow> state \<Rightarrow> bool" for a :: args and i :: string where
  dropped: "produce a i st st"
| accepted: "produce a i st (snd (accept a i r st))"

inductive step :: "args \<Rightarrow> state \<Rightarrow> state \<Rightarrow> bool" for a :: args where
  fetch: "\<not> stop_everything st \<Longrightarrow>
          step a st (st\<lparr>trace := Call (CallCF ''folder-fetchContentWithRelatives'' ps) # trace st\<rparr>)"
| rewrite: "step a st (st\<lparr>trace := Rewrite f t s p # trace st\<rparr>)"
| item: "\<not> stop_everything st \<Longrightarrow> i \<notin> seen_item_ids_global st \<Longrightarrow>
         lookup (st\<lparr>seen_item_ids_global := insert i (seen_item_ids_global st)\<rparr>) st2 \<Longrightarrow>
         produce a i st2 st3 \<Longrightarrow> step a st st3"

text \<open>A traversal is a sequence of such steps.\<close>

abbreviation steps :: "args \<Rightarrow> state \<Rightarrow> state \<Rightarrow> bool" where
  "steps a \<equiv> (step a)\<^sup>*\<^sup>*"

text \<open>Observations on a history. \<open>calls_after n es\<close>: the gateway calls that come after the
  \<open>n\<close>-th record in the history \<open>es\<close>, oldest event first. \<open>discovery_calls\<close>: the
  parameters of the \<^verbatim>\<open>fetchMyFolders\<close> calls among the requests.\<close>

fun calls_after :: "nat \<Rightarrow> event list \<Rightarrow> request list" where
  "calls_after 0 es = calls_of es"
| "calls_after (Suc n) [] = []"
| "calls_after (Suc n) (Emit i r # es) = calls_after n es"
| "calls_after (Suc n) (e # es) = calls_after (Suc n) es"

fun discovery_calls :: "request list \<Rightarrow> pydict list" where
  "discovery_calls [] = []"
| "discovery_calls (CallCF f ps # rs) =
     (if f = ''fetchMyFolders'' then ps # discovery_calls rs else discovery_calls rs)"
| "discovery_calls (r # rs) = discovery_calls rs"

text \<open>The invariants of the steps: records are produced once and only for marked
  identities; a word id is requested once and is cached from then on; and, with an
  expected count in \<^verbatim>\<open>--all\<close> mode, the records are counted, the stop flag is set exactly
  when the count is reached, and nothing is requested after that.\<close>

definition inv_dedup :: "state \<Rightarrow> bool" where
  "inv_dedup st =
     (distinct (emitted_ids (trace st)) \<and>
      set (emitted_ids (trace st)) \<subseteq> seen_item_ids_global st \<and>
      dom (results_by_id st) \<subseteq> set (emitted_ids (trace st)))"

definition inv_cache :: "state \<Rightarrow> bool" where
  "inv_cache st = (distinct (word_detail_ids (calls_of (trace st))) \<and>
     set (word_detail_ids (calls_of (trace st))) \<subseteq> dom (word_cache st))"

definition inv_stop :: "args \<Rightarrow> state \<Rightarrow> bool" where
  "inv_stop a st =
     (printed_total st = int (length (emitted_ids (trace st))) \<and>
      printed_total st \<le> expected a \<and>
      stop_everything st = (expected a \<le> printed_total st) \<and>
      calls_after (nat (expected a)) (rev (trace st)) = [])"


text \<open>From one state to a later one the history grows at its head, the global seen set
  grows, and no new record has an identity that was globally seen before.\<close>

definition grows :: "state \<Rightarrow> state \<Rightarrow> bool" where
  "grows st st' =
     (\<exists>new. trace st' = new @ trace st \<and>
            set (emitted_ids new) \<inter> seen_item_ids_global st = {} \<and>
            seen_item_ids_global st \<subseteq> seen_item_ids_global st')"

section \<open>A sample account\<close>

text \<open>A small account for the concrete runs below: one folder, found only when folder
  discovery is called without a scoping parameter, and one page of seven raw items: a
  sentence, the same sentence again, a sentence with an empty title, a bookmark (type 10),
  an item whose target is not an object, a word without inline spell, and a word that has
  neither \<^verbatim>\<open>objectId\<close> nor \<^verbatim>\<open>id\<close> and no pron. The word detail of \<^verbatim>\<open>w1\<close> resolves; any
  other lookup fails.\<close>

definition demo_sentence :: "string \<Rightarrow> string \<Rightarrow> pydict" where
  "demo_sentence oid title =
     [(''targetType'', JInt 103),
      (''target'', JObj [(''objectId'', JStr oid), (''title'', JStr title), (''wordId'', JStr ''w1'')])]"

definition demo_bookmark :: pydict where
  "demo_bookmark = [(''targetType'', JInt 10), (''target'', JObj [(''objectId'', JStr ''b1'')])]"

definition demo_broken :: pydict where
  "demo_broken = [(''targetType'', JInt 103), (''target'', JStr ''gone'')]"

definition demo_word :: pydict where
  "demo_word = [(''targetType'', JInt 102), (''target'', JObj [(''objectId'', JStr ''w1''), (''pron'', JStr ''neko'')])]"

definition demo_word_target_without_id :: pydict where
  "demo_word_target_without_id = [(''spell'', JStr ''inu'')]"

definition demo_items :: "pydict list" where
  "demo_items =
     [demo_sentence ''s1'' ''x'', demo_sentence ''s1'' ''x'', demo_sentence ''s2'' '' '',
      demo_bookmark, demo_broken, demo_word,
      [(''targetType'', JInt 102), (''target'', JObj demo_word_target_without_id)]]"

definition demo_page :: json where
  "demo_page =
     JObj [(''result'', JObj [(''code'', JInt 200), (''result'', JArr (map JObj demo_items)),
                              (''totalPage'', JInt 2)])]"

definition demo_gateway :: gateway where
  "demo_gateway n r =
     (case r of
        CallCF f ps \<Rightarrow>
          if f = ''fetchMyFolders'' then
            (if ps = []
             then Reply (JObj [(''result'', JArr [JObj [(''objectId'', JStr ''f1''),
                                                       (''title'', JStr ''My sentences'')]])])
             else Reply (JObj [(''result'', JArr [])]))
          else Reply demo_page
      | WordDetail w \<Rightarrow>
          if w = ''w1''
          then Reply (JObj [(''word'', JObj [(''spell'', JStr ''cat''), (''pron'', JStr ''kyatto''),
                                            (''excerpt'', JStr ''a small animal'')])])
          else Failed ''HTTP 404''
      | ItemTargets i \<Rightarrow> Reply (JObj []))"

definition demo_args :: args where
  "demo_args = \<lparr> session_token = Some ''token'', pfid = None, folder_id = None,
     targets_for_item = None, page = 1, count = 20, sort_type = 0, sort_types = None, limit = 10,
     mode = Both, target_types = None, output_file = None, json_output = False, fetch_all = True,
     all_folders = False, max_pages = 200, stop_after_no_new = 3, expected = 2 \<rparr>"

definition demo_broken_gateway :: gateway where
  "demo_broken_gateway n r =
     Reply (JObj [(''result'', JObj [(''code'', JInt 200),
                                     (''result'', JArr [JObj demo_broken, JObj demo_broken])])])"

section \<open>Lemmas: every function of the traversal runs steps, and the steps keep the invariants\<close>

lemma ensure_word_cached_lookup: "lookup st (ensure_word_cached env w st)"
  by (auto simp: ensure_word_cached_def gateway_call_def split: reply.splits intro: lookup.intros)

lemma ensure_word_cached_stop [simp]:
  "stop_everything (ensure_word_cached env w st) = stop_everything st"
  by (auto simp: ensure_word_cached_def gateway_call_def split: reply.splits)

lemma classify_lookup: "classify env fid ftitle stype tt item_id target st = (ro, st') \<Longrightarrow> lookup st st'"
  by (auto simp: classify_def classify_sentence_def classify_word_def word_fields_def Let_def
      split: if_splits json.splits prod.splits intro: ensure_word_cached_lookup lookup.hit)

lemma lookup_stop: "lookup st st' \<Longrightarrow> stop_everything st' = stop_everything st"
  by (induction rule: lookup.induct) auto

lemma accept_signal: "accept a i r st = (sg, st') \<Longrightarrow> \<not> stop_everything st \<Longrightarrow>
   (sg = Break \<and> stop_everything st') \<or> (sg = Next \<and> \<not> stop_everything st')"
  by (auto simp: accept_def Let_def split: if_splits)

lemma process_item_step:
  assumes "process_item env a allowed_types fid ftitle stype it l st = (sg, l', st')"
    and "\<not> stop_everything st"
  shows "(st' = st \<or> step a st st') \<and> (sg = Next \<longrightarrow> \<not> stop_everything st')"
proof (cases "get it ''target''")
  case (JObj target)
  let ?i = "item_id_s_of (get it ''targetType'') (item_id_of target)"
  show ?thesis
  proof (cases "fetch_all a \<and> ?i \<in> seen_item_ids_in_folder l")
    case True
    with assms JObj show ?thesis by (auto simp: process_item_def Let_def)
  next
    case nf: False
    show ?thesis
    proof (cases "in_int_set (get it ''targetType'') allowed_types")
      case (Inl e)
      with assms JObj nf show ?thesis by (auto simp: process_item_def Let_def split: if_splits)
    next
      case (Inr b)
      show ?thesis
      proof (cases "b \<and> ?i \<notin> seen_item_ids_global st")
        case False
        with assms JObj nf Inr show ?thesis
          by (auto simp: process_item_def Let_def split: if_splits bool.splits)
      next
        case True
        let ?st1 = "st\<lparr>seen_item_ids_global := insert ?i (seen_item_ids_global st)\<rparr>"
        obtain ro st2 where c: "classify env fid ftitle stype (get it ''targetType'') (item_id_of target) target ?st1 = (ro, st2)"
          by (cases "classify env fid ftitle stype (get it ''targetType'') (item_id_of target) target ?st1") auto
        have lk: "lookup ?st1 st2" using c by (rule classify_lookup)
        have ns2: "\<not> stop_everything st2" using lookup_stop[OF lk] assms(2) by simp
        show ?thesis
        proof (cases ro)
          case None
          with assms JObj nf Inr True c have "st' = st2" "sg = after_item a st2"
            by (auto simp: process_item_def Let_def split: if_splits)
          moreover have "step a st st2"
            using assms(2) True lk by (auto intro: step.item produce.dropped)
          ultimately show ?thesis using ns2 by simp
        next
          case (Some r)
          obtain sg3 st3 where ac: "accept a ?i r st2 = (sg3, st3)" by (cases "accept a ?i r st2") auto
          have st3: "st' = st3" and sg: "sg = (if sg3 = Break then Break else after_item a st3)"
            using assms JObj nf Inr True c Some ac
            by (auto simp: process_item_def Let_def split: if_splits signal.splits)
          have "produce a ?i st2 st3" using produce.accepted[of a ?i st2 r] ac by simp
          then have "step a st st3" using assms(2) True lk by (auto intro: step.item)
          moreover have "sg = Next \<longrightarrow> \<not> stop_everything st3"
            using accept_signal[OF ac ns2] sg by (auto split: if_splits)
          ultimately show ?thesis using st3 by simp
        qed
      qed
    qed
  qed
qed (use assms in \<open>auto simp: process_item_def Let_def\<close>)

lemma item_loop_steps:
  "item_loop env a allowed_types fid ftitle stype items l st = (sg, l', st') \<Longrightarrow>
   \<not> stop_everything st \<Longrightarrow> steps a st st' \<and> (sg = Next \<longrightarrow> \<not> stop_everything st')"
proof (induction items arbitrary: l st)
  case Nil
  then show ?case by simp
next
  case (Cons it items)
  obtain sg1 l1 st1 where p: "process_item env a allowed_types fid ftitle stype it l st = (sg1, l1, st1)"
    by (cases "process_item env a allowed_types fid ftitle stype it l st") auto
  from process_item_step[OF p Cons.prems(2)]
  have s1: "steps a st st1" and n1: "sg1 = Next \<longrightarrow> \<not> stop_everything st1" by auto
  show ?case
  proof (cases "sg1 = Next")
    case True
    with Cons.prems p have "item_loop env a allowed_types fid ftitle stype items l1 st1 = (sg, l', st')"
      by simp
    from Cons.IH[OF this] n1 True s1 show ?thesis by auto
  next
    case False
    with Cons.prems p have "sg = sg1" "st' = st1" by (auto split: signal.splits)
    with s1 False show ?thesis by simp
  qed
qed

lemma fetch_page_step:
  "fetch_page env a stt fid stype pidx st = (r, st') \<Longrightarrow> \<not> stop_everything st \<Longrightarrow>
   step a st st' \<and> \<not> stop_everything st'"
  by (auto simp: fetch_page_def call_cf_def gateway_call_def
      split: reply.splits sum.splits if_splits prod.splits intro: step.fetch)

lemma rewrite_json_progress_steps: "steps a st (rewrite_json_progress a fid ftitle stype pidx st)"
  by (auto simp: rewrite_json_progress_def intro: step.rewrite)

lemma rewrite_json_progress_stop [simp]:
  "stop_everything (rewrite_json_progress a fid ftitle stype pidx st) = stop_everything st"
  by (simp add: rewrite_json_progress_def)

lemma after_items_steps:
  "after_items a fid ftitle stype l st = (sg, l', st') \<Longrightarrow>
   steps a st st' \<and> (sg = Next \<longrightarrow> \<not> stop_everything st')"
  by (auto simp: after_items_def Let_def rewrite_json_progress_steps split: if_splits)

lemma page_step_steps:
  assumes "page_step env a allowed_types stt fid ftitle stype l st = (sg, l', st')"
  shows "steps a st st' \<and> (sg = Next \<longrightarrow> \<not> stop_everything st')"
proof (cases "stop_everything st")
  case True
  with assms show ?thesis by (simp add: page_step_def)
next
  case False
  obtain r st1 where f: "fetch_page env a stt fid stype (page_index l) st = (r, st1)"
    by (cases "fetch_page env a stt fid stype (page_index l) st") auto
  from fetch_page_step[OF f False] have s1: "step a st st1" and n1: "\<not> stop_everything st1" by auto
  show ?thesis
  proof (cases r)
    case (Inl e)
    with assms False f s1 show ?thesis by (auto simp: page_step_def)
  next
    case (Inr content_payload)
    let ?l1 = "l\<lparr>total_pages := read_total_pages content_payload (total_pages l)\<rparr>"
    let ?items = "iter_items_from_folder_content content_payload"
    show ?thesis
    proof (cases "?items = []")
      case True
      with assms False f Inr s1 show ?thesis by (auto simp: page_step_def Let_def)
    next
      case ne: False
      obtain sg2 l2 st2 where il: "item_loop env a allowed_types fid ftitle stype ?items (?l1\<lparr>new_any_in_page := 0\<rparr>) st1 = (sg2, l2, st2)"
        by (cases "item_loop env a allowed_types fid ftitle stype ?items (?l1\<lparr>new_any_in_page := 0\<rparr>) st1") auto
      from item_loop_steps[OF il n1] have s2: "steps a st1 st2" by simp
      show ?thesis
      proof (cases "\<exists>e. sg2 = Raise e")
        case True
        with assms False f Inr ne il have "st' = st2" "sg \<noteq> Next"
          by (auto simp: page_step_def Let_def)
        with s1 s2 show ?thesis by auto
      next
        case nr: False
        with assms False f Inr ne il have "after_items a fid ftitle stype l2 st2 = (sg, l', st')"
          by (auto simp: page_step_def Let_def split: signal.splits)
        from after_items_steps[OF this] s1 s2 show ?thesis by auto
      qed
    qed
  qed
qed

lemma page_loop_steps:
  "page_loop fuel env a allowed_types stt fid ftitle stype l st = (sg, l', st') \<Longrightarrow> steps a st st'"
proof (induction fuel arbitrary: l st)
  case 0
  then show ?case by simp
next
  case (Suc n)
  obtain sg1 l1 st1 where p: "page_step env a allowed_types stt fid ftitle stype l st = (sg1, l1, st1)"
    by (cases "page_step env a allowed_types stt fid ftitle stype l st") auto
  from page_step_steps[OF p] have s1: "steps a st st1" by simp
  show ?case
  proof (cases "sg1 = Next")
    case True
    with Suc.prems p have "page_loop n env a allowed_types stt fid ftitle stype l1 st1 = (sg, l', st')"
      by simp
    from Suc.IH[OF this] s1 show ?thesis by auto
  next
    case False
    with Suc.prems p have "st' = st1" by (auto split: signal.splits)
    with s1 show ?thesis by simp
  qed
qed

lemma export_one_folder_steps:
  assumes "export_one_folder fuel env a allowed_types stt fid ftitle stype st = (sg, st')"
  shows "steps a st st'"
proof -
  obtain sg1 l1 st1 where p: "page_loop fuel env a allowed_types stt fid ftitle stype (init_locals a) st = (sg1, l1, st1)"
    by (cases "page_loop fuel env a allowed_types stt fid ftitle stype (init_locals a) st") auto
  from page_loop_steps[OF p] have s1: "steps a st st1" .
  have "st' = st1 \<or> st' = rewrite_json_progress a fid ftitle stype (page_index l1) st1"
    using assms p by (auto simp: export_one_folder_def split: signal.splits)
  then show ?thesis
    using s1 rewrite_json_progress_steps[of a st1 fid ftitle stype "page_index l1"] by auto
qed

lemma sort_loop_steps:
  "sort_loop fuel env a allowed_types stt fid ftitle ss st = (sg, st') \<Longrightarrow> steps a st st'"
proof (induction ss arbitrary: st)
  case Nil
  then show ?case by simp
next
  case (Cons s ss)
  obtain sg1 st1 where e: "export_one_folder fuel env a allowed_types stt fid ftitle s st = (sg1, st1)"
    by (cases "export_one_folder fuel env a allowed_types stt fid ftitle s st") auto
  from export_one_folder_steps[OF e] have s1: "steps a st st1" .
  show ?case
  proof (cases "sg1 = Next \<and> \<not> stop_everything st1")
    case True
    with Cons.prems e have "sort_loop fuel env a allowed_types stt fid ftitle ss st1 = (sg, st')"
      by simp
    from Cons.IH[OF this] s1 show ?thesis by auto
  next
    case False
    with Cons.prems e have "st' = st1" by (auto split: signal.splits if_splits)
    with s1 show ?thesis by simp
  qed
qed

lemma folder_loop_steps:
  "folder_loop fuel env a allowed_types stt active fs st = (sg, st') \<Longrightarrow> steps a st st'"
proof (induction fs arbitrary: st)
  case Nil
  then show ?case by simp
next
  case (Cons f fs)
  obtain fid ftitle where f: "f = (fid, ftitle)" by (cases f) auto
  show ?case
  proof (cases "fid = ''''")
    case True
    with Cons.prems f have "folder_loop fuel env a allowed_types stt active fs st = (sg, st')" by simp
    from Cons.IH[OF this] show ?thesis .
  next
    case ne: False
    obtain sg1 st1 where e: "sort_loop fuel env a allowed_types stt fid ftitle active st = (sg1, st1)"
      by (cases "sort_loop fuel env a allowed_types stt fid ftitle active st") auto
    from sort_loop_steps[OF e] have s1: "steps a st st1" .
    show ?thesis
    proof (cases "st' = st1")
      case True
      with s1 show ?thesis by simp
    next
      case False
      with Cons.prems f ne e have "folder_loop fuel env a allowed_types stt active fs st1 = (sg, st')"
        by (auto split: signal.splits if_splits)
      from Cons.IH[OF this] s1 show ?thesis by auto
    qed
  qed
qed

lemma step_dedup: "step a st st' \<Longrightarrow> inv_dedup st \<Longrightarrow> inv_dedup st'"
proof (induction rule: step.induct)
  case (item st i st2 st3)
  let ?st1 = "st\<lparr>seen_item_ids_global := insert i (seen_item_ids_global st)\<rparr>"
  have 1: "inv_dedup ?st1 \<and> i \<notin> set (emitted_ids (trace ?st1)) \<and> i \<in> seen_item_ids_global ?st1"
    using item.prems item.hyps(2) by (auto simp: inv_dedup_def)
  have 2: "inv_dedup st2 \<and> i \<notin> set (emitted_ids (trace st2)) \<and> i \<in> seen_item_ids_global st2"
    using item.hyps(3) 1 by (induction rule: lookup.induct) (auto simp: inv_dedup_def)
  show ?case using item.hyps(4) 2
    by (induction rule: produce.induct) (auto simp: inv_dedup_def accept_def Let_def)
qed (auto simp: inv_dedup_def)

lemma steps_dedup: "steps a st st' \<Longrightarrow> inv_dedup st \<Longrightarrow> inv_dedup st'"
  by (induction rule: rtranclp_induct) (auto intro: step_dedup)





lemma step_discovery: "step a st st' \<Longrightarrow> discovery_calls (calls_of (trace st')) = discovery_calls (calls_of (trace st))"
proof (induction rule: step.induct)
  case (item st i st2 st3)
  let ?st1 = "st\<lparr>seen_item_ids_global := insert i (seen_item_ids_global st)\<rparr>"
  have 2: "discovery_calls (calls_of (trace st2)) = discovery_calls (calls_of (trace ?st1))"
    using item.hyps(3) by (induction rule: lookup.induct) auto
  have "discovery_calls (calls_of (trace st3)) = discovery_calls (calls_of (trace st2))" using item.hyps(4)
    by (induction rule: produce.induct) (auto simp: accept_def Let_def)
  with 2 show ?case by simp
qed auto

lemma steps_discovery: "steps a st st' \<Longrightarrow> discovery_calls (calls_of (trace st')) = discovery_calls (calls_of (trace st))"
  by (induction rule: rtranclp_induct) (auto dest: step_discovery)

lemma emitted_ids_append: "emitted_ids (xs @ ys) = emitted_ids xs @ emitted_ids ys"
  by (induction xs rule: emitted_ids.induct) auto

lemma emitted_ids_rev: "emitted_ids (rev xs) = rev (emitted_ids xs)"
  by (induction xs rule: emitted_ids.induct) (auto simp: emitted_ids_append)

lemma calls_of_append: "calls_of (xs @ ys) = calls_of xs @ calls_of ys"
  by (induction xs rule: calls_of.induct) auto

lemma calls_after_append:
  "calls_after n (es @ fs) =
     (if n \<le> length (emitted_ids es) then calls_after n es @ calls_of fs
      else calls_after (n - length (emitted_ids es)) fs)"
  by (induction n es rule: calls_after.induct) (auto simp: calls_of_append)

lemma calls_after_Nil [simp]: "calls_after n [] = []"
  by (cases n) auto

lemma calls_after_one:
  "0 < n \<Longrightarrow> calls_after n [e] = []"
  by (cases n; cases e) auto

lemma emitted_ids_Cons_other: "emitted_ids [e] = [] \<Longrightarrow> emitted_ids (e # es) = emitted_ids es"
  by (cases e) auto

lemma inv_stop_event:
  assumes "inv_stop a st" "calls_of [e] = [] \<or> \<not> stop_everything st" "emitted_ids [e] = []"
  shows "inv_stop a (st\<lparr>trace := e # trace st\<rparr>)"
proof -
  have "calls_after (nat (expected a)) (rev (trace st) @ [e]) = []"
  proof (cases "nat (expected a) \<le> length (emitted_ids (rev (trace st)))")
    case True
    then have "stop_everything st" using assms(1) by (auto simp: inv_stop_def emitted_ids_rev)
    with assms True show ?thesis by (auto simp: calls_after_append inv_stop_def)
  next
    case False
    then show ?thesis by (simp add: calls_after_append calls_after_one)
  qed
  with assms show ?thesis by (auto simp: inv_stop_def emitted_ids_Cons_other)
qed

lemma step_stop:
  assumes fa: "fetch_all a" "0 < expected a"
  shows "step a st st' \<Longrightarrow> inv_stop a st \<Longrightarrow> inv_stop a st'"
proof (induction rule: step.induct)
  case (fetch st ps)
  then show ?case by (auto intro: inv_stop_event)
next
  case (rewrite st f t s p)
  then show ?case by (auto intro: inv_stop_event)
next
  case (item st i st2 st3)
  let ?st1 = "st\<lparr>seen_item_ids_global := insert i (seen_item_ids_global st)\<rparr>"
  have 1: "inv_stop a ?st1 \<and> \<not> stop_everything ?st1"
    using item.prems item.hyps(1) by (auto simp: inv_stop_def)
  have 2: "inv_stop a st2 \<and> \<not> stop_everything st2"
    using item.hyps(3) 1
  proof (induction rule: lookup.induct)
    case (miss st w v)
    then have "inv_stop a (st\<lparr>trace := Call (WordDetail w) # trace st\<rparr>)"
      by (auto intro: inv_stop_event)
    then show ?case using miss by (auto simp: inv_stop_def)
  qed auto
  show ?case using item.hyps(4) 2
  proof (induction rule: produce.induct)
    case (accepted st r)
    then have lt: "length (emitted_ids (trace st)) < nat (expected a)"
      by (auto simp: inv_stop_def)
    have "calls_after (nat (expected a)) (rev (trace st) @ [Emit i r]) = []"
      using lt by (simp add: calls_after_append emitted_ids_rev calls_after_one)
    with accepted fa show ?case
      by (auto simp: inv_stop_def accept_def Let_def)
  qed auto
qed

lemma steps_stop:
  "steps a st st' \<Longrightarrow> fetch_all a \<Longrightarrow> 0 < expected a \<Longrightarrow> inv_stop a st \<Longrightarrow> inv_stop a st'"
  by (induction rule: rtranclp_induct) (auto intro: step_stop)

lemma discover_folders_cases:
  assumes "discover_folders env a st = (r, st')"
  shows "st' = st\<lparr>trace := Call (CallCF ''fetchMyFolders'' (folders_params_of a)) # trace st\<rparr> \<or>
         st' = st\<lparr>trace := Call (CallCF ''fetchMyFolders'' []) #
                   Call (CallCF ''fetchMyFolders'' (folders_params_of a)) # trace st\<rparr>"
  using assms
  by (auto simp: discover_folders_def call_cf_def gateway_call_def Let_def
      split: reply.splits sum.splits if_splits prod.splits json.splits)

lemma main_reach:
  assumes "main fuel env a = (out, st)"
  shows "st = init_state \<or> (\<exists>i. st = init_state\<lparr>trace := [Call (ItemTargets i)]\<rparr>) \<or>
         (\<exists>r st_d. discover_folders env a init_state = (r, st_d) \<and> steps a st_d st)"
proof (cases "given (session_token a) \<and> \<not> given (targets_for_item a) \<and> \<not> (json_output a \<and> \<not> given (output_file a))")
  case False
  with assms show ?thesis
    by (auto simp: main_def gateway_call_def init_state_def split: if_splits reply.splits prod.splits)
next
  case True
  obtain r st_d where d: "discover_folders env a init_state = (r, st_d)"
    by (cases "discover_folders env a init_state") auto
  have "steps a st_d st"
  proof (cases "st = st_d")
    case True
    then show ?thesis by simp
  next
    case False
    from False assms True d obtain folders where r: "r = Inr folders"
      by (cases r) (auto simp: main_def)
    from False assms True d r obtain fs where sf: "select_folders a folders = Inr fs"
      by (cases "select_folders a folders") (auto simp: main_def)
    from False assms True d r sf obtain et where pt: "parse_target_types (target_types a) = Inr et"
      by (cases "parse_target_types (target_types a)") (auto simp: main_def)
    from False assms True d r sf pt obtain sl where ps: "parse_sort_types (sort_types a) = Inr sl"
      by (cases "parse_sort_types (sort_types a)") (auto simp: main_def Let_def)
    let ?al = "allowed_types_of a et"
    let ?act = "active_sort_types_of a sl"
    obtain sg st1 where fl: "folder_loop fuel env a ?al (sort ?al) ?act fs st_d = (sg, st1)"
      by (cases "folder_loop fuel env a ?al (sort ?al) ?act fs st_d") auto
    have fin: "st = st1 \<or> (\<exists>f t s p. st = rewrite_json_progress a f t s p st1)"
      using assms True d r sf pt ps fl
      by (simp add: main_def Let_def del: folder_loop.simps split: signal.splits if_splits list.splits prod.splits) blast+
    from folder_loop_steps[OF fl] have "steps a st_d st1" .
    with fin show ?thesis
      using rewrite_json_progress_steps[of a st1] by (auto intro: rtranclp_trans)
  qed
  with d show ?thesis by blast
qed

lemma calls_after_no_emits: "0 < n \<Longrightarrow> emitted_ids es = [] \<Longrightarrow> calls_after n es = []"
  by (induction n es rule: calls_after.induct) auto

lemma discover_folders_inv:
  assumes "discover_folders env a init_state = (r, st)"
  shows "inv_dedup st" "inv_cache st" "0 < expected a \<Longrightarrow> inv_stop a st"
  using discover_folders_cases[OF assms]
  by (auto simp: inv_dedup_def inv_cache_def inv_stop_def init_state_def calls_after_no_emits)

lemma main_inv_dedup: "inv_dedup (snd (main fuel env a))"
proof -
  obtain out st where m: "main fuel env a = (out, st)" by (cases "main fuel env a") auto
  from main_reach[OF m] have "inv_dedup st"
    by (auto simp: discover_folders_inv intro: steps_dedup) (auto simp: inv_dedup_def init_state_def)
  with m show ?thesis by simp
qed


lemma main_inv_stop:
  assumes "fetch_all a" "0 < expected a"
  shows "inv_stop a (snd (main fuel env a))"
proof -
  obtain out st where m: "main fuel env a = (out, st)" by (cases "main fuel env a") auto
  from main_reach[OF m] assms have "inv_stop a st"
    by (auto simp: discover_folders_inv intro: steps_stop)
      (auto simp: inv_stop_def init_state_def calls_after_no_emits)
  with m show ?thesis by simp
qed

lemma process_item_locals:
  assumes "process_item env a allowed_types fid ftitle stype it l st = (sg, l', st')"
    and "fetch_all a"
  shows "l' = (case item_identity it of
                 None \<Rightarrow> l
               | Some i \<Rightarrow> if i \<in> seen_item_ids_in_folder l then l
                           else l\<lparr>seen_item_ids_in_folder := insert i (seen_item_ids_in_folder l),
                                  new_any_in_page := new_any_in_page l + 1\<rparr>)"
    and "sg = Break \<longrightarrow> stop_everything st'"
    and "sg \<noteq> Return \<and> sg \<noteq> OutOfFuel"
  using assms
  by (auto simp: process_item_def item_identity_def Let_def after_item_def accept_def
      split: json.splits if_splits sum.splits bool.splits prod.splits option.splits signal.splits)

lemma item_loop_locals:
  assumes "item_loop env a allowed_types fid ftitle stype items l st = (sg, l', st')"
    and "fetch_all a"
  shows "(sg = Next \<longrightarrow>
            seen_item_ids_in_folder l' = seen_item_ids_in_folder l \<union> set (page_identities items) \<and>
            (new_any_in_page l' = new_any_in_page l) = (set (page_identities items) \<subseteq> seen_item_ids_in_folder l) \<and>
            new_any_in_page l \<le> new_any_in_page l') \<and>
         no_new_streak l' = no_new_streak l \<and> page_index l' = page_index l \<and>
         total_pages l' = total_pages l \<and>
         (sg = Break \<longrightarrow> stop_everything st') \<and> sg \<noteq> Return \<and> sg \<noteq> OutOfFuel"
  using assms(1)
proof (induction items arbitrary: l st)
  case Nil
  then show ?case by (simp add: page_identities_def List.map_filter_simps)
next
  case (Cons it items)
  obtain sg1 l1 st1 where p: "process_item env a allowed_types fid ftitle stype it l st = (sg1, l1, st1)"
    by (cases "process_item env a allowed_types fid ftitle stype it l st") auto
  note pl = process_item_locals[OF p assms(2)]
  show ?case
  proof (cases "sg1 = Next")
    case True
    with Cons.prems p have il: "item_loop env a allowed_types fid ftitle stype items l1 st1 = (sg, l', st')"
      by simp
    from Cons.IH[OF il] pl(1) show ?thesis
      by (cases "item_identity it")
         (auto simp: page_identities_def List.map_filter_simps split: if_splits)
  next
    case False
    with Cons.prems p have "sg = sg1" "st' = st1" "l' = l1" by (auto split: signal.splits)
    with pl False show ?thesis
      by (cases "item_identity it") (auto split: if_splits)
  qed
qed

lemma item_loop_no_identity:
  "\<forall>it \<in> set items. item_identity it = None \<Longrightarrow>
   item_loop env a allowed_types fid ftitle stype items l st = (Next, l, st)"
  by (induction items) (auto simp: process_item_def item_identity_def Let_def split: json.splits)

lemma page_identities_none:
  "\<forall>it \<in> set items. item_identity it = None \<Longrightarrow> page_identities items = []"
  by (induction items) (auto simp: page_identities_def List.map_filter_simps)

lemma process_item_accepting:
  assumes "get it ''target'' = JObj target"
    and "i = item_id_s_of (get it ''targetType'') (item_id_of target)"
    and "\<not> (fetch_all a \<and> i \<in> seen_item_ids_in_folder l)"
    and "in_int_set (get it ''targetType'') allowed_types = Inr True"
    and "i \<notin> seen_item_ids_global st"
    and "classify env fid ftitle stype (get it ''targetType'') (item_id_of target) target
           (st\<lparr>seen_item_ids_global := insert i (seen_item_ids_global st)\<rparr>) = (ro, st2)"
  shows "snd (snd (process_item env a allowed_types fid ftitle stype it l st)) =
           (case ro of None \<Rightarrow> st2 | Some r \<Rightarrow> snd (accept a i r st2))"
  using assms
  by (auto simp: process_item_def Let_def split: option.splits prod.splits signal.splits)

lemma lookup_frame:
  "lookup st st' \<Longrightarrow>
   seen_item_ids_global st' = seen_item_ids_global st \<and>
   emitted_ids (trace st') = emitted_ids (trace st) \<and>
   printed_total st' = printed_total st \<and> results_by_id st' = results_by_id st"
  by (induction rule: lookup.induct) auto

lemma accept_frame:
  "seen_item_ids_global (snd (accept a i r st)) = seen_item_ids_global st \<and>
   emitted_ids (trace (snd (accept a i r st))) = i # emitted_ids (trace st) \<and>
   word_cache (snd (accept a i r st)) = word_cache st \<and>
   calls_of (trace (snd (accept a i r st))) = calls_of (trace st)"
  by (auto simp: accept_def Let_def)


lemma main_steps_from_discovery:
  assumes reach: "given (session_token a)" "\<not> given (targets_for_item a)"
    "\<not> (json_output a \<and> \<not> given (output_file a))"
  shows "steps a (snd (discover_folders env a init_state)) (snd (main fuel env a))"
proof -
  obtain out st where m: "main fuel env a = (out, st)" by (cases "main fuel env a") auto
  obtain r st_d where d: "discover_folders env a init_state = (r, st_d)"
    by (cases "discover_folders env a init_state") auto
  have "steps a st_d st"
  proof (cases "st = st_d")
    case True
    then show ?thesis by simp
  next
    case False
    from False m reach d obtain folders where r: "r = Inr folders"
      by (cases r) (auto simp: main_def)
    from False m reach d r obtain fs where sf: "select_folders a folders = Inr fs"
      by (cases "select_folders a folders") (auto simp: main_def)
    from False m reach d r sf obtain et where pt: "parse_target_types (target_types a) = Inr et"
      by (cases "parse_target_types (target_types a)") (auto simp: main_def)
    from False m reach d r sf pt obtain sl where ps: "parse_sort_types (sort_types a) = Inr sl"
      by (cases "parse_sort_types (sort_types a)") (auto simp: main_def Let_def)
    let ?al = "allowed_types_of a et"
    let ?act = "active_sort_types_of a sl"
    obtain sg st1 where fl: "folder_loop fuel env a ?al (sort ?al) ?act fs st_d = (sg, st1)"
      by (cases "folder_loop fuel env a ?al (sort ?al) ?act fs st_d") auto
    have fin: "st = st1 \<or> (\<exists>f t s p. st = rewrite_json_progress a f t s p st1)"
      using m reach d r sf pt ps fl
      by (simp add: main_def Let_def del: folder_loop.simps split: signal.splits if_splits list.splits prod.splits) blast+
    from folder_loop_steps[OF fl] have "steps a st_d st1" .
    with fin show ?thesis
      using rewrite_json_progress_steps[of a st1] by (auto intro: rtranclp_trans)
  qed
  with m d show ?thesis by simp
qed

lemma discover_folders_first_ok:
  assumes "call_cf env ''fetchMyFolders'' (folders_params_of a) st = (Inr folders_payload, st1)"
    and "py_int (get_default folders_payload ''code'' (JInt 0)) = Inr 200"
    and "get folders_payload ''result'' = JArr folders"
  shows "calls_of (trace (snd (discover_folders env a st))) =
           (if given (pfid a) \<and> folders = []
            then [CallCF ''fetchMyFolders'' [], CallCF ''fetchMyFolders'' (folders_params_of a)]
            else [CallCF ''fetchMyFolders'' (folders_params_of a)]) @ calls_of (trace st)"
proof -
  have st1: "st1 = st\<lparr>trace := Call (CallCF ''fetchMyFolders'' (folders_params_of a)) # trace st\<rparr>"
    using assms(1) by (auto simp: call_cf_def gateway_call_def split: reply.splits)
  obtain r2 st2 where c2: "call_cf env ''fetchMyFolders'' [] st1 = (r2, st2)"
    by (cases "call_cf env ''fetchMyFolders'' [] st1") auto
  have st2: "st2 = st1\<lparr>trace := Call (CallCF ''fetchMyFolders'' []) # trace st1\<rparr>"
    using c2 by (auto simp: call_cf_def gateway_call_def split: reply.splits)
  show ?thesis
    using assms c2 st1 st2
    by (auto simp: discover_folders_def Let_def split: sum.splits)
qed









lemma grows_refl: "grows st st"
  by (auto simp: grows_def)

lemma grows_trans: "grows st st' \<Longrightarrow> grows st' st'' \<Longrightarrow> grows st st''"
  unfolding grows_def
proof (elim exE conjE)
  fix n1 n2
  assume a: "trace st' = n1 @ trace st" "set (emitted_ids n1) \<inter> seen_item_ids_global st = {}"
    "seen_item_ids_global st \<subseteq> seen_item_ids_global st'"
    "trace st'' = n2 @ trace st'" "set (emitted_ids n2) \<inter> seen_item_ids_global st' = {}"
    "seen_item_ids_global st' \<subseteq> seen_item_ids_global st''"
  have "trace st'' = (n2 @ n1) @ trace st" using a by simp
  moreover have "set (emitted_ids (n2 @ n1)) \<inter> seen_item_ids_global st = {}"
    using a by (auto simp: emitted_ids_append)
  moreover have "seen_item_ids_global st \<subseteq> seen_item_ids_global st''" using a by auto
  ultimately show "\<exists>new. trace st'' = new @ trace st \<and>
            set (emitted_ids new) \<inter> seen_item_ids_global st = {} \<and>
            seen_item_ids_global st \<subseteq> seen_item_ids_global st''" by blast
qed

lemma step_grows: "step a st st' \<Longrightarrow> grows st st'"
proof (induction rule: step.induct)
  case (fetch st ps)
  show ?case unfolding grows_def
    by (rule exI[of _ "[Call (CallCF ''folder-fetchContentWithRelatives'' ps)]"]) simp
next
  case (rewrite st f t s p)
  show ?case unfolding grows_def by (rule exI[of _ "[Rewrite f t s p]"]) simp
next
  case (item st i st2 st3)
  let ?st1 = "st\<lparr>seen_item_ids_global := insert i (seen_item_ids_global st)\<rparr>"
  have 2: "\<exists>n. trace st2 = n @ trace st \<and> emitted_ids n = [] \<and>
               seen_item_ids_global st2 = insert i (seen_item_ids_global st)"
    using item.hyps(3)
  proof (cases rule: lookup.cases)
    case hit
    then show ?thesis by simp
  next
    case (miss w v)
    then show ?thesis by (intro exI[of _ "[Call (WordDetail w)]"]) simp
  qed
  then obtain n where n: "trace st2 = n @ trace st" "emitted_ids n = []"
    "seen_item_ids_global st2 = insert i (seen_item_ids_global st)" by blast
  have "\<exists>m. trace st3 = m @ trace st \<and> set (emitted_ids m) \<subseteq> {i} \<and>
               seen_item_ids_global st3 = insert i (seen_item_ids_global st)"
    using item.hyps(4)
  proof (cases rule: produce.cases)
    case dropped
    with n show ?thesis by (intro exI[of _ n]) simp
  next
    case (accepted r)
    with n show ?thesis
      by (intro exI[of _ "Emit i r # n"]) (auto simp: accept_def Let_def)
  qed
  with item.hyps(2) show ?case unfolding grows_def by auto
qed

lemma steps_grows: "steps a st st' \<Longrightarrow> grows st st'"
  by (induction rule: rtranclp_induct) (auto intro: grows_refl grows_trans step_grows)

section \<open>The claims\<close>

text \<open>
  \<^bold>\<open>C1.\<close> In every run at most one Export Record is produced for an Item Identity, however
  many folders, sort types and pages surface it. For the final state of \<^verbatim>\<open>main\<close>, whatever
  the gateway answers and however much fuel the page loops get: the identities of the
  records produced (the \<open>Emit\<close> events: printed, or stored in \<^verbatim>\<open>results_by_id\<close>) are
  pairwise distinct, each of them is in the global seen set, and \<^verbatim>\<open>results_by_id\<close> has
  no key that was not produced. And once an identity is in the global seen set, the rest
  of the traversal produces no record for it: from any state, the folder loop only adds
  to the history, and none of the records it adds has an identity that was globally seen
  in that state.
\<close>

theorem export_record_at_most_once_per_identity:
  "distinct (emitted_ids (trace (snd (main fuel env a)))) \<and>
   set (emitted_ids (trace (snd (main fuel env a)))) \<subseteq> seen_item_ids_global (snd (main fuel env a)) \<and>
   dom (results_by_id (snd (main fuel env a))) \<subseteq> set (emitted_ids (trace (snd (main fuel env a)))) \<and>
   (folder_loop fuel env a allowed_types server_target_types active_sort_types export_folders st
      = (sg, st') \<longrightarrow>
    (\<exists>new. trace st' = new @ trace st \<and>
           set (emitted_ids new) \<inter> seen_item_ids_global st = {}))"
proof -
  have "folder_loop fuel env a allowed_types server_target_types active_sort_types export_folders st
      = (sg, st') \<longrightarrow>
    (\<exists>new. trace st' = new @ trace st \<and>
           set (emitted_ids new) \<inter> seen_item_ids_global st = {})"
    using steps_grows[OF folder_loop_steps] unfolding grows_def by blast
  with main_inv_dedup[of fuel env a] show ?thesis by (simp add: inv_dedup_def)
qed

text \<open>The sample run without an expected count produces three records, for three
  identities, although the sentence \<^verbatim>\<open>s1\<close> is on the page twice and the page is fetched
  twice. When the identity of \<^verbatim>\<open>s1\<close> is globally seen at the start of the traversal, no
  record is produced for it.\<close>

theorem export_record_at_most_once_per_identity_witness:
  "distinct (emitted_ids (trace (snd (main 5 demo_gateway (demo_args\<lparr>expected := 0\<rparr>))))) \<and>
   emitted_ids (trace (snd (main 5 demo_gateway (demo_args\<lparr>expected := 0\<rparr>)))) =
     [''102:::'', ''102:w1'', ''103:s1''] \<and>
   ''103:s1'' \<notin> set (emitted_ids (trace (snd (folder_loop 5 demo_gateway (demo_args\<lparr>expected := 0\<rparr>)
      [102, 103, 120] [102, 103, 120] [0] [(''f1'', ''My sentences'')]
      (init_state\<lparr>seen_item_ids_global := {''103:s1''}\<rparr>))))) \<and>
   emitted_ids (trace (snd (folder_loop 5 demo_gateway (demo_args\<lparr>expected := 0\<rparr>)
      [102, 103, 120] [102, 103, 120] [0] [(''f1'', ''My sentences'')]
      (init_state\<lparr>seen_item_ids_global := {''103:s1''}\<rparr>)))) = [''102:::'', ''102:w1'']"
proof -
  let ?a = "demo_args\<lparr>expected := 0\<rparr>"
  let ?st = "init_state\<lparr>seen_item_ids_global := {''103:s1''}\<rparr>"
  let ?F = "folder_loop 5 demo_gateway ?a [102, 103, 120] [102, 103, 120] [0]
      [(''f1'', ''My sentences'')] ?st"
  have e: "emitted_ids (trace (snd (main 5 demo_gateway ?a))) = [''102:::'', ''102:w1'', ''103:s1'']"
    by code_simp
  have f: "emitted_ids (trace (snd ?F)) = [''102:::'', ''102:w1'']" by code_simp
  have p: "?F = (fst ?F, snd ?F)" by simp
  note X = export_record_at_most_once_per_identity[where fuel = 5 and env = demo_gateway and a = ?a
      and allowed_types = "[102, 103, 120]" and server_target_types = "[102, 103, 120]"
      and active_sort_types = "[0]" and export_folders = "[(''f1'', ''My sentences'')]"
      and st = ?st and sg = "fst ?F" and st' = "snd ?F"]
  from X p obtain new where n: "trace (snd ?F) = new @ trace ?st"
    "set (emitted_ids new) \<inter> seen_item_ids_global ?st = {}" by blast
  have "trace ?st = []" by (simp add: init_state_def)
  with n have "''103:s1'' \<notin> set (emitted_ids (trace (snd ?F)))" by auto
  with X e f show ?thesis by blast
qed

text \<open>
  \<^bold>\<open>C2.\<close> In \<^verbatim>\<open>--all\<close> mode, for a page that is processed up to the stop conditions (it
  has at least one raw item, no exception left the item loop and the global stop flag is
  still clear): the no-new streak is incremented exactly when every identity on the page
  was already in the per-folder seen set, and is reset to zero otherwise. Nothing is
  assumed about the allowed types or about the global seen set.
\<close>

theorem no_new_streak_follows_folder_seen_set:
  assumes all_mode: "fetch_all a"
    and fetched: "fetch_page env a server_target_types fid stype (page_index l) st = (Inr content_payload, st1)"
    and page: "page_step env a allowed_types server_target_types fid ftitle stype l st = (sg, l', st')"
    and processed: "iter_items_from_folder_content content_payload \<noteq> []" "\<not> stop_everything st'"
      "\<forall>e. sg \<noteq> Raise e"
  shows "no_new_streak l' =
           (if set (page_identities (iter_items_from_folder_content content_payload))
                 \<subseteq> seen_item_ids_in_folder l
            then no_new_streak l + 1 else 0)"
proof -
  let ?items = "iter_items_from_folder_content content_payload"
  let ?l1 = "l\<lparr>total_pages := read_total_pages content_payload (total_pages l)\<rparr>"
  have ns: "\<not> stop_everything st"
    using page processed(2) by (auto simp: page_step_def split: if_splits)
  obtain sg2 l2 st2 where il:
    "item_loop env a allowed_types fid ftitle stype ?items (?l1\<lparr>new_any_in_page := 0\<rparr>) st1 = (sg2, l2, st2)"
    by (cases "item_loop env a allowed_types fid ftitle stype ?items (?l1\<lparr>new_any_in_page := 0\<rparr>) st1") auto
  have nr: "\<forall>e. sg2 \<noteq> Raise e"
    using page ns fetched processed il by (auto simp: page_step_def Let_def)
  have ai: "after_items a fid ftitle stype l2 st2 = (sg, l', st')"
    using page ns fetched processed(1) il nr by (auto simp: page_step_def Let_def split: signal.splits)
  have ns2: "\<not> stop_everything st2"
    using ai processed(2) by (auto simp: after_items_def Let_def split: if_splits)
  note loc = item_loop_locals[OF il all_mode]
  have "sg2 = Next" using loc nr ns2 by (cases sg2) auto
  with loc have
    "(new_any_in_page l2 = 0) = (set (page_identities ?items) \<subseteq> seen_item_ids_in_folder l)"
    "no_new_streak l2 = no_new_streak l"
    by auto
  moreover have "no_new_streak l' = (if new_any_in_page l2 = 0 then no_new_streak l2 + 1 else 0)"
    using ai all_mode ns2 by (auto simp: after_items_def Let_def split: if_splits)
  ultimately show ?thesis by simp
qed

text \<open>Words only are allowed. The page holds sentences, a bookmark and two words that were
  already seen in this folder, so every new identity is of a type that is not allowed: no
  record is produced, and the streak goes from 2 to 0.\<close>

theorem no_new_streak_follows_folder_seen_set_witness:
  "no_new_streak (fst (snd (page_step demo_gateway (demo_args\<lparr>expected := 0\<rparr>) [102] [102]
      ''f1'' ''My sentences'' 0
      ((init_locals demo_args)\<lparr>no_new_streak := 2, seen_item_ids_in_folder := {''102:w1'', ''102:::''}\<rparr>)
      init_state))) = 0 \<and>
   emitted_ids (trace (snd (snd (page_step demo_gateway (demo_args\<lparr>expected := 0\<rparr>) [102] [102]
      ''f1'' ''My sentences'' 0
      ((init_locals demo_args)\<lparr>no_new_streak := 2, seen_item_ids_in_folder := {''102:w1'', ''102:::''}\<rparr>)
      init_state)))) = []"
proof -
  let ?a = "demo_args\<lparr>expected := 0\<rparr>"
  let ?l = "(init_locals demo_args)\<lparr>no_new_streak := 2, seen_item_ids_in_folder := {''102:w1'', ''102:::''}\<rparr>"
  let ?payload = "[(''code'', JInt 200), (''result'', JArr (map JObj demo_items)), (''totalPage'', JInt 2)]"
  let ?F = "fetch_page demo_gateway ?a [102] ''f1'' 0 (page_index ?l) init_state"
  let ?P = "page_step demo_gateway ?a [102] [102] ''f1'' ''My sentences'' 0 ?l init_state"
  have h1: "fetch_all ?a" by code_simp
  have "fst ?F = Inr ?payload" by code_simp
  then have h2: "?F = (Inr ?payload, snd ?F)" by (simp add: prod_eq_iff)
  have h3: "?P = (fst ?P, fst (snd ?P), snd (snd ?P))" by simp
  have h4: "iter_items_from_folder_content ?payload \<noteq> []" by code_simp
  have h5: "\<not> stop_everything (snd (snd ?P))" by code_simp
  have "fst ?P = Next" by code_simp
  then have h6: "\<forall>e. fst ?P \<noteq> Raise e" by simp
  have c: "\<not> set (page_identities (iter_items_from_folder_content ?payload)) \<subseteq> seen_item_ids_in_folder ?l"
    by code_simp
  have e: "emitted_ids (trace (snd (snd ?P))) = []" by code_simp
  from no_new_streak_follows_folder_seen_set[OF h1 h2 h3 h4 h5 h6] c e
  show ?thesis by simp
qed

text \<open>
  \<^bold>\<open>C3.\<close> In \<^verbatim>\<open>--all\<close> mode with an expected count \<open>N > 0\<close>: in the history of the
  whole run no gateway call (page fetch or word detail) comes after the \<open>N\<close>-th record,
  the global stop flag is set exactly when \<open>N\<close> records have been produced, and no more
  than \<open>N\<close> records are produced.
\<close>

theorem early_stop_on_expected_count:
  assumes "fetch_all a" and "0 < expected a"
  shows "calls_after (nat (expected a)) (rev (trace (snd (main fuel env a)))) = [] \<and>
         stop_everything (snd (main fuel env a)) =
           (nat (expected a) \<le> length (emitted_ids (trace (snd (main fuel env a))))) \<and>
         length (emitted_ids (trace (snd (main fuel env a)))) \<le> nat (expected a)"
  using main_inv_stop[OF assms, of fuel env] assms(2) by (auto simp: inv_stop_def)

text \<open>With \<open>N = 2\<close> the sample run stops in the middle of its first page, after the second
  record; without an expected count it produces three records.\<close>

theorem early_stop_on_expected_count_witness:
  "fetch_all demo_args \<and> 0 < expected demo_args \<and>
   calls_after (nat (expected demo_args)) (rev (trace (snd (main 5 demo_gateway demo_args)))) = [] \<and>
   stop_everything (snd (main 5 demo_gateway demo_args)) \<and>
   emitted_ids (trace (snd (main 5 demo_gateway demo_args))) = [''102:w1'', ''103:s1''] \<and>
   length (emitted_ids (trace (snd (main 5 demo_gateway (demo_args\<lparr>expected := 0\<rparr>))))) = 3"
proof -
  have h1: "fetch_all demo_args" by code_simp
  have h2: "0 < expected demo_args" by code_simp
  have e: "emitted_ids (trace (snd (main 5 demo_gateway demo_args))) = [''102:w1'', ''103:s1'']"
    by code_simp
  have n: "nat (expected demo_args) = 2" by code_simp
  have u: "length (emitted_ids (trace (snd (main 5 demo_gateway (demo_args\<lparr>expected := 0\<rparr>))))) = 3"
    by code_simp
  from early_stop_on_expected_count[OF h1 h2, of 5 demo_gateway] h1 h2 e n u
  show ?thesis by simp
qed



text \<open>
  \<^bold>\<open>C5\<close> as stated does not hold: the identity is added to the global seen set (line
  760) before the item is classified. The sentence \<^verbatim>\<open>s2\<close> of the sample page has a blank
  title, so the classifier drops it, and its identity is in the global seen set afterwards.
\<close>

theorem dropped_item_is_marked_globally_seen:
  "in_int_set (JInt 103) [120, 103] = Inr True \<and>
   item_identity (demo_sentence ''s2'' '' '') = Some ''103:s2'' \<and>
   ''103:s2'' \<notin> seen_item_ids_global init_state \<and>
   emitted_ids (trace (snd (snd (process_item demo_gateway demo_args [120, 103] ''f1'' ''My sentences'' 0
      (demo_sentence ''s2'' '' '') (init_locals demo_args) init_state)))) = [] \<and>
   ''103:s2'' \<in> seen_item_ids_global (snd (snd (process_item demo_gateway demo_args [120, 103]
      ''f1'' ''My sentences'' 0 (demo_sentence ''s2'' '' '') (init_locals demo_args) init_state)))"
proof -
  have "in_int_set (JInt 103) [120, 103] = Inr True" by code_simp
  moreover have "item_identity (demo_sentence ''s2'' '' '') = Some ''103:s2''" by code_simp
  moreover have "''103:s2'' \<notin> seen_item_ids_global init_state" by (simp add: init_state_def)
  moreover have "emitted_ids (trace (snd (snd (process_item demo_gateway demo_args [120, 103] ''f1'' ''My sentences'' 0
      (demo_sentence ''s2'' '' '') (init_locals demo_args) init_state)))) = []" by code_simp
  moreover have "''103:s2'' \<in> seen_item_ids_global (snd (snd (process_item demo_gateway demo_args [120, 103]
      ''f1'' ''My sentences'' 0 (demo_sentence ''s2'' '' '') (init_locals demo_args) init_state)))"
    by code_simp
  ultimately show ?thesis by blast
qed

text \<open>
  \<^bold>\<open>C5, amended.\<close> For every item that is newly seen in the folder (or any item outside
  \<^verbatim>\<open>--all\<close> mode), matches the allowed types and is not globally seen, the identity is
  added to the global seen set whether or not the classifier yields a record; a record
  with this identity is produced exactly when the classifier yields one.
\<close>

theorem identity_marked_before_classification:
  assumes "get it ''target'' = JObj target"
    and "i = item_id_s_of (get it ''targetType'') (item_id_of target)"
    and "\<not> (fetch_all a \<and> i \<in> seen_item_ids_in_folder l)"
    and "in_int_set (get it ''targetType'') allowed_types = Inr True"
    and "i \<notin> seen_item_ids_global st"
    and "process_item env a allowed_types fid ftitle stype it l st = (sg, l', st')"
  shows "seen_item_ids_global st' = insert i (seen_item_ids_global st) \<and>
         emitted_ids (trace st') =
           (case fst (classify env fid ftitle stype (get it ''targetType'') (item_id_of target) target
                        (st\<lparr>seen_item_ids_global := insert i (seen_item_ids_global st)\<rparr>)) of
              None \<Rightarrow> emitted_ids (trace st)
            | Some r \<Rightarrow> i # emitted_ids (trace st))"
proof -
  let ?st1 = "st\<lparr>seen_item_ids_global := insert i (seen_item_ids_global st)\<rparr>"
  obtain ro st2 where c:
    "classify env fid ftitle stype (get it ''targetType'') (item_id_of target) target ?st1 = (ro, st2)"
    by (cases "classify env fid ftitle stype (get it ''targetType'') (item_id_of target) target ?st1") auto
  note fr = lookup_frame[OF classify_lookup[OF c]]
  have "st' = (case ro of None \<Rightarrow> st2 | Some r \<Rightarrow> snd (accept a i r st2))"
    using process_item_accepting[OF assms(1-5) c] assms(6) by simp
  with fr c show ?thesis by (cases ro) (auto simp: accept_frame)
qed

text \<open>The dropped sentence \<^verbatim>\<open>s2\<close> and the accepted sentence \<^verbatim>\<open>s1\<close> are both marked.\<close>

theorem identity_marked_before_classification_witness:
  "seen_item_ids_global (snd (snd (process_item demo_gateway demo_args [120, 103] ''f1'' ''My sentences'' 0
      (demo_sentence ''s2'' '' '') (init_locals demo_args) init_state))) = {''103:s2''} \<and>
   emitted_ids (trace (snd (snd (process_item demo_gateway demo_args [120, 103] ''f1'' ''My sentences'' 0
      (demo_sentence ''s2'' '' '') (init_locals demo_args) init_state)))) = [] \<and>
   seen_item_ids_global (snd (snd (process_item demo_gateway demo_args [120, 103] ''f1'' ''My sentences'' 0
      (demo_sentence ''s1'' ''x'') (init_locals demo_args) init_state))) = {''103:s1''} \<and>
   emitted_ids (trace (snd (snd (process_item demo_gateway demo_args [120, 103] ''f1'' ''My sentences'' 0
      (demo_sentence ''s1'' ''x'') (init_locals demo_args) init_state)))) = [''103:s1'']"
proof -
  let ?t = "\<lambda>oid title. [(''objectId'', JStr oid), (''title'', JStr title), (''wordId'', JStr ''w1'')]"
  let ?P = "\<lambda>oid title. process_item demo_gateway demo_args [120, 103] ''f1'' ''My sentences'' 0
      (demo_sentence oid title) (init_locals demo_args) init_state"
  have g: "\<And>oid title. get (demo_sentence oid title) ''target'' = JObj (?t oid title)"
    by (simp add: demo_sentence_def get_def get_default_def)
  have tt: "\<And>oid title. get (demo_sentence oid title) ''targetType'' = JInt 103"
    by (simp add: demo_sentence_def get_def get_default_def)
  have i2: "''103:s2'' = item_id_s_of (get (demo_sentence ''s2'' '' '') ''targetType'') (item_id_of (?t ''s2'' '' ''))"
    by code_simp
  have i1: "''103:s1'' = item_id_s_of (get (demo_sentence ''s1'' ''x'') ''targetType'') (item_id_of (?t ''s1'' ''x''))"
    by code_simp
  have nf2: "\<not> (fetch_all demo_args \<and> ''103:s2'' \<in> seen_item_ids_in_folder (init_locals demo_args))"
    by (simp add: init_locals_def)
  have nf1: "\<not> (fetch_all demo_args \<and> ''103:s1'' \<in> seen_item_ids_in_folder (init_locals demo_args))"
    by (simp add: init_locals_def)
  have al: "\<And>oid title. in_int_set (get (demo_sentence oid title) ''targetType'') [120, 103] = Inr True"
    unfolding tt by code_simp
  have ng: "\<And>i. i \<notin> seen_item_ids_global init_state" by (simp add: init_state_def)
  have p: "\<And>oid title. ?P oid title = (fst (?P oid title), fst (snd (?P oid title)), snd (snd (?P oid title)))"
    by simp
  have c2: "fst (classify demo_gateway ''f1'' ''My sentences'' 0 (get (demo_sentence ''s2'' '' '') ''targetType'')
      (item_id_of (?t ''s2'' '' '')) (?t ''s2'' '' '')
      (init_state\<lparr>seen_item_ids_global := insert ''103:s2'' (seen_item_ids_global init_state)\<rparr>)) = None"
    by code_simp
  have c1: "fst (classify demo_gateway ''f1'' ''My sentences'' 0 (get (demo_sentence ''s1'' ''x'') ''targetType'')
      (item_id_of (?t ''s1'' ''x'')) (?t ''s1'' ''x'')
      (init_state\<lparr>seen_item_ids_global := insert ''103:s1'' (seen_item_ids_global init_state)\<rparr>)) \<noteq> None"
    by code_simp
  have s0: "seen_item_ids_global init_state = {}" "emitted_ids (trace init_state) = []"
    by (simp_all add: init_state_def)
  note X2 = identity_marked_before_classification[OF g i2 nf2 al ng p]
  note X1 = identity_marked_before_classification[OF g i1 nf1 al ng p]
  obtain r where c1': "fst (classify demo_gateway ''f1'' ''My sentences'' 0 (get (demo_sentence ''s1'' ''x'') ''targetType'')
      (item_id_of (?t ''s1'' ''x'')) (?t ''s1'' ''x'')
      (init_state\<lparr>seen_item_ids_global := insert ''103:s1'' (seen_item_ids_global init_state)\<rparr>)) = Some r"
    using c1 by blast
  have r2a: "seen_item_ids_global (snd (snd (?P ''s2'' '' ''))) = {''103:s2''}"
    using X2[THEN conjunct1] unfolding s0 .
  have "emitted_ids (trace (snd (snd (?P ''s2'' '' '')))) = emitted_ids (trace init_state)"
    using X2[THEN conjunct2] unfolding c2 option.case .
  then have r2b: "emitted_ids (trace (snd (snd (?P ''s2'' '' '')))) = []" unfolding s0 .
  have r1a: "seen_item_ids_global (snd (snd (?P ''s1'' ''x''))) = {''103:s1''}"
    using X1[THEN conjunct1] unfolding s0 .
  have "emitted_ids (trace (snd (snd (?P ''s1'' ''x'')))) = ''103:s1'' # emitted_ids (trace init_state)"
    using X1[THEN conjunct2] unfolding c1' option.case .
  then have r1b: "emitted_ids (trace (snd (snd (?P ''s1'' ''x'')))) = [''103:s1'']" unfolding s0 .
  from r2a r2b r1a r1b show ?thesis by blast
qed

text \<open>
  \<^bold>\<open>C6.\<close> When the run reaches folder discovery and the first \<^verbatim>\<open>fetchMyFolders\<close> call
  succeeds with a list of folders: the discovery calls of the whole run (newest first) are
  the first call and, exactly when a non-empty \<^verbatim>\<open>pfid\<close> was given and the list is empty,
  one more call without parameters. The first call carries the \<^verbatim>\<open>pfid\<close> parameter exactly
  when a non-empty \<^verbatim>\<open>pfid\<close> was given.
\<close>

theorem discovery_fallback_is_one_shot:
  assumes "given (session_token a)" and "\<not> given (targets_for_item a)"
    and "\<not> (json_output a \<and> \<not> given (output_file a))"
    and "call_cf env ''fetchMyFolders'' (folders_params_of a) init_state = (Inr folders_payload, st1)"
    and "py_int (get_default folders_payload ''code'' (JInt 0)) = Inr 200"
    and "get folders_payload ''result'' = JArr folders"
  shows "discovery_calls (calls_of (trace (snd (main fuel env a)))) =
           (if given (pfid a) \<and> folders = [] then [[], folders_params_of a]
            else [folders_params_of a]) \<and>
         (folders_params_of a = []) = (\<not> given (pfid a))"
proof -
  have "discovery_calls (calls_of (trace (snd (main fuel env a)))) =
        discovery_calls (calls_of (trace (snd (discover_folders env a init_state))))"
    using main_steps_from_discovery[OF assms(1-3)] by (rule steps_discovery)
  also have "\<dots> = (if given (pfid a) \<and> folders = [] then [[], folders_params_of a]
            else [folders_params_of a])"
    using discover_folders_first_ok[OF assms(4-6)] by (simp add: init_state_def)
  finally show ?thesis
    by (auto simp: folders_params_of_def given_def split: option.splits)
qed

text \<open>The sample account lists no folder under a \<^verbatim>\<open>pfid\<close>: with \<^verbatim>\<open>--pfid ROOT\<close> there
  is one fallback call, without it there is the first call only.\<close>

theorem discovery_fallback_is_one_shot_witness:
  "discovery_calls (calls_of (trace (snd (main 5 demo_gateway (demo_args\<lparr>pfid := Some ''ROOT''\<rparr>)))))
     = [[], [(''pfid'', JStr ''ROOT'')]] \<and>
   discovery_calls (calls_of (trace (snd (main 5 demo_gateway demo_args)))) = [[]]"
proof -
  let ?a = "demo_args\<lparr>pfid := Some ''ROOT''\<rparr>"
  let ?C = "\<lambda>a. call_cf demo_gateway ''fetchMyFolders'' (folders_params_of a) init_state"
  let ?p1 = "[(''code'', JInt 200), (''result'', JArr [])]"
  let ?p2 = "[(''code'', JInt 200), (''result'', JArr [JObj [(''objectId'', JStr ''f1''), (''title'', JStr ''My sentences'')]])]"
  have a1: "given (session_token ?a)" "\<not> given (targets_for_item ?a)"
    "\<not> (json_output ?a \<and> \<not> given (output_file ?a))" by code_simp+
  have b1: "given (session_token demo_args)" "\<not> given (targets_for_item demo_args)"
    "\<not> (json_output demo_args \<and> \<not> given (output_file demo_args))" by code_simp+
  have "fst (?C ?a) = Inr ?p1" by code_simp
  then have a4: "?C ?a = (Inr ?p1, snd (?C ?a))" by (simp add: prod_eq_iff)
  have "fst (?C demo_args) = Inr ?p2" by code_simp
  then have b4: "?C demo_args = (Inr ?p2, snd (?C demo_args))" by (simp add: prod_eq_iff)
  have a5: "py_int (get_default ?p1 ''code'' (JInt 0)) = Inr 200" by code_simp
  have b5: "py_int (get_default ?p2 ''code'' (JInt 0)) = Inr 200" by code_simp
  have a6: "get ?p1 ''result'' = JArr []" by code_simp
  have b6: "get ?p2 ''result'' = JArr [JObj [(''objectId'', JStr ''f1''), (''title'', JStr ''My sentences'')]]"
    by code_simp
  have ga: "given (pfid ?a)" by code_simp
  have gb: "\<not> given (pfid demo_args)" by code_simp
  have fa: "folders_params_of ?a = [(''pfid'', JStr ''ROOT'')]" by code_simp
  have fb: "folders_params_of demo_args = []" by code_simp
  have ra: "discovery_calls (calls_of (trace (snd (main 5 demo_gateway ?a)))) = [[], folders_params_of ?a]"
    using discovery_fallback_is_one_shot[OF a1 a4 a5 a6, of 5, THEN conjunct1] ga by (simp only: if_True simp_thms)
  have rb: "discovery_calls (calls_of (trace (snd (main 5 demo_gateway demo_args)))) = [folders_params_of demo_args]"
    using discovery_fallback_is_one_shot[OF b1 b4 b5 b6, of 5, THEN conjunct1] gb by (simp only: if_False simp_thms)
  from ra rb show ?thesis unfolding fa fb by blast
qed









text \<open>
  \<^bold>\<open>C10.\<close> Items whose target is not an object are skipped before their identity is
  computed: the item loop over such items changes neither the local variables (per-folder
  seen set, new-item count) nor the state (global seen set, cache, records), and the page
  holds no identity. In \<^verbatim>\<open>--all\<close> mode a fetched page of one or more such items ends with
  the streak incremented and the per-folder seen set unchanged, the state being that of
  the fetch followed by the progress rewrite.
\<close>

theorem non_object_target_is_skipped:
  assumes "\<forall>it \<in> set items. \<not> is_dict (get it ''target'')"
  shows "item_loop env a allowed_types fid ftitle stype items l st = (Next, l, st) \<and>
         page_identities items = [] \<and>
         (fetch_all a \<and> \<not> stop_everything st \<and> items \<noteq> [] \<and>
          fetch_page env a server_target_types fid stype (page_index l) st = (Inr content_payload, st1) \<and>
          iter_items_from_folder_content content_payload = items \<longrightarrow>
            (\<exists>sg l'. page_step env a allowed_types server_target_types fid ftitle stype l st =
                      (sg, l', rewrite_json_progress a fid ftitle stype (page_index l) st1) \<and>
                    (sg = Next \<or> sg = Break) \<and>
                    no_new_streak l' = no_new_streak l + 1 \<and>
                    seen_item_ids_in_folder l' = seen_item_ids_in_folder l))"
proof -
  have none: "\<forall>it \<in> set items. item_identity it = None"
    using assms by (auto simp: item_identity_def split: json.splits)
  have il: "\<And>l st. item_loop env a allowed_types fid ftitle stype items l st = (Next, l, st)"
    using none by (rule item_loop_no_identity)
  have pi: "page_identities items = []" using none by (rule page_identities_none)
  have "\<exists>sg l'. page_step env a allowed_types server_target_types fid ftitle stype l st =
                      (sg, l', rewrite_json_progress a fid ftitle stype (page_index l) st1) \<and>
                    (sg = Next \<or> sg = Break) \<and>
                    no_new_streak l' = no_new_streak l + 1 \<and>
                    seen_item_ids_in_folder l' = seen_item_ids_in_folder l"
    if h: "fetch_all a" "\<not> stop_everything st" "items \<noteq> []"
      "fetch_page env a server_target_types fid stype (page_index l) st = (Inr content_payload, st1)"
      "iter_items_from_folder_content content_payload = items"
  proof -
    have ns1: "\<not> stop_everything st1" using fetch_page_step[OF h(4) h(2)] by simp
    show ?thesis
      using h ns1 il by (auto simp: page_step_def after_items_def Let_def)
  qed
  with il pi show ?thesis by blast
qed

text \<open>A page of two items whose target is a string: the streak goes from 0 to 1.\<close>

theorem non_object_target_is_skipped_witness:
  "item_loop demo_gateway demo_args [102, 103, 120] ''f1'' ''My sentences'' 0 [demo_broken, demo_broken]
     (init_locals demo_args) init_state = (Next, init_locals demo_args, init_state) \<and>
   no_new_streak (fst (snd (page_step demo_broken_gateway demo_args [102, 103, 120] [102, 103, 120]
     ''f1'' ''My sentences'' 0 (init_locals demo_args) init_state))) = 1 \<and>
   seen_item_ids_in_folder (fst (snd (page_step demo_broken_gateway demo_args [102, 103, 120]
     [102, 103, 120] ''f1'' ''My sentences'' 0 (init_locals demo_args) init_state))) = {}"
proof -
  let ?items = "[demo_broken, demo_broken]"
  let ?l = "init_locals demo_args"
  let ?payload = "[(''code'', JInt 200), (''result'', JArr [JObj demo_broken, JObj demo_broken])]"
  let ?F = "fetch_page demo_broken_gateway demo_args [102, 103, 120] ''f1'' 0 (page_index ?l) init_state"
  let ?P = "page_step demo_broken_gateway demo_args [102, 103, 120] [102, 103, 120]
     ''f1'' ''My sentences'' 0 ?l init_state"
  have "\<not> is_dict (get demo_broken ''target'')" by code_simp
  then have h: "\<forall>it \<in> set ?items. \<not> is_dict (get it ''target'')" by simp
  have f1: "fetch_all demo_args" by code_simp
  have f2: "\<not> stop_everything init_state" by (simp add: init_state_def)
  have f3: "?items \<noteq> []" by simp
  have "fst ?F = Inr ?payload" by code_simp
  then have f4: "?F = (Inr ?payload, snd ?F)" by (simp add: prod_eq_iff)
  have f5: "iter_items_from_folder_content ?payload = ?items" by code_simp
  have s0: "no_new_streak ?l = 0" "seen_item_ids_in_folder ?l = {}" by (simp_all add: init_locals_def)
  note X = non_object_target_is_skipped[OF h, where env = demo_gateway and a = demo_args
      and allowed_types = "[102, 103, 120]" and fid = "''f1''" and ftitle = "''My sentences''"
      and stype = 0 and l = ?l and st = init_state]
  note Y = non_object_target_is_skipped[OF h, where env = demo_broken_gateway and a = demo_args
      and allowed_types = "[102, 103, 120]" and server_target_types = "[102, 103, 120]"
      and fid = "''f1''" and ftitle = "''My sentences''"
      and stype = 0 and l = ?l and st = init_state and content_payload = ?payload and ?st1.0 = "snd ?F"]
  from Y f1 f2 f3 f4 f5 obtain sg l' where
    p: "?P = (sg, l', rewrite_json_progress demo_args ''f1'' ''My sentences'' 0 (page_index ?l) (snd ?F))"
    and r: "no_new_streak l' = no_new_streak ?l + 1" "seen_item_ids_in_folder l' = seen_item_ids_in_folder ?l"
    by blast
  have "fst (snd ?P) = l'" unfolding p by simp
  with r s0 have "no_new_streak (fst (snd ?P)) = 1" "seen_item_ids_in_folder (fst (snd ?P)) = {}"
    by simp_all
  with X[THEN conjunct1] show ?thesis by blast
qed

end
